theory Spec2Isabelle
  imports Complex_Main "HOL-Library.Word"
begin

section \<open>Pinterest template generator: colour analysis and layout\<close>

text \<open>
  A shallow embedding of \<^verbatim>\<open>SmartColorPinterestGenerator\<close> (file
  \<^verbatim>\<open>src/APP2/buffer/design.py\<close>) and of the grid test of
  \<^verbatim>\<open>generatePinterestImage\<close> (file \<^verbatim>\<open>src/APP2/buffer/template.py\<close>).

  Conventions of the embedding.
  \<^item> A pixel of the NumPy array is three unsigned 8-bit channels, \<^typ>\<open>8 word\<close> each.
  \<^item> A NumPy \<^verbatim>\<open>uint8\<close> scalar combined with a Python integer is promoted to a 64-bit
    integer (NumPy 1.x promotion); no product of the source exceeds \<open>255 * 587\<close>, so
    these values are modelled as \<^typ>\<open>int\<close>. (From NumPy 2 on, the product
    \<^verbatim>\<open>r * 299\<close> of line 78 raises \<^verbatim>\<open>OverflowError\<close> instead, which the
    \<^verbatim>\<open>except\<close> clause turns into the default colour.)
  \<^item> Python floats are modelled as exact rationals (\<^typ>\<open>rat\<close>). Every comparison of the
    source that the theorems below rely on is between values that differ by far more
    than a rounding error, or between values that binary floating point represents
    without error.
  \<^item> Calls into Pillow whose result is not computed by this repository (decoding,
    resampling, parsing a colour name, measuring text) are inputs of the model.
  \<^item> An exception is a value \<open>Inl e\<close> of a sum type.
  \<^item> Strings are ASCII text: upper-casing and white space are those of the ASCII
    characters.
\<close>

subsection \<open>Constants of the generator\<close>

datatype py_error =
    ZeroDivisionError
  | ValueError string
  | OSError string

type_synonym pixel = "8 word \<times> 8 word \<times> 8 word"

definition canvas_width :: int where
  "canvas_width = 735"

definition canvas_height :: int where
  "canvas_height = 1102"

definition top_image_height :: int where
  "top_image_height = 400"

definition banner_height :: int where
  "banner_height = 120"

definition bottom_image_height :: int where
  "bottom_image_height = canvas_height - top_image_height - banner_height"

definition default_color :: string where
  "default_color = ''#FF9800''"

subsection \<open>Numbers\<close>

text \<open>\<^verbatim>\<open>int(x)\<close> on a float truncates towards zero.\<close>

definition py_int :: "rat \<Rightarrow> int" where
  "py_int x = (if 0 \<le> x then \<lfloor>x\<rfloor> else \<lceil>x\<rceil>)"

text \<open>
  True division: \<^verbatim>\<open>a / b\<close> on two Python integers, and on two floats. Both raise
  \<^verbatim>\<open>ZeroDivisionError\<close> for a zero divisor.
\<close>

definition true_div :: "int \<Rightarrow> int \<Rightarrow> py_error + rat" where
  "true_div a b = (if b = 0 then Inl ZeroDivisionError else Inr (of_int a / of_int b))"

definition float_div :: "rat \<Rightarrow> rat \<Rightarrow> py_error + rat" where
  "float_div a b = (if b = 0 then Inl ZeroDivisionError else Inr (a / b))"

subsection \<open>Strings: upper-casing and hexadecimal output\<close>

text \<open>\<^verbatim>\<open>str.upper\<close> on ASCII text: the 26 lower-case letters are replaced.\<close>

definition upper_char :: "char \<Rightarrow> char" where
  "upper_char c =
     (case map_of (zip ''abcdefghijklmnopqrstuvwxyz'' ''ABCDEFGHIJKLMNOPQRSTUVWXYZ'') c of
        Some u \<Rightarrow> u
      | None \<Rightarrow> c)"

definition str_upper :: "string \<Rightarrow> string" where
  "str_upper s = map upper_char s"

text \<open>
  The format \<^verbatim>\<open>{r:02x}\<close>: two lower-case hexadecimal digits for a value in
  \<open>0..255\<close> (the source clamps every channel with \<^verbatim>\<open>min(255, ...)\<close> first).
\<close>

definition hexdigit :: "int \<Rightarrow> char" where
  "hexdigit d = ''0123456789abcdef'' ! nat d"

definition hex2 :: "int \<Rightarrow> string" where
  "hex2 n = [hexdigit (n div 16), hexdigit (n mod 16)]"

definition hex_color :: "int \<Rightarrow> int \<Rightarrow> int \<Rightarrow> string" where
  "hex_color r g b = str_upper (''#'' @ hex2 r @ hex2 g @ hex2 b)"

subsection \<open>\<^verbatim>\<open>detect_dominant_color\<close>\<close>

text \<open>Line 53: the mask keeps a pixel unless all three channels exceed 240.\<close>

definition near_white :: "pixel \<Rightarrow> bool" where
  "near_white p = (case p of (r, g, b) \<Rightarrow> r > 240 \<and> g > 240 \<and> b > 240)"

definition filter_pixels :: "pixel list \<Rightarrow> pixel list" where
  "filter_pixels pixels = filter (\<lambda>p. \<not> near_white p) pixels"

text \<open>Line 60: \<^verbatim>\<open>(filtered_pixels // 32) * 32\<close>, in unsigned 8-bit arithmetic.\<close>

definition group_pixel :: "pixel \<Rightarrow> pixel" where
  "group_pixel p = (case p of (r, g, b) \<Rightarrow> ((r div 32) * 32, (g div 32) * 32, (b div 32) * 32))"

text \<open>
  Line 63: \<^verbatim>\<open>np.unique(grouped_pixels, axis=0, return_counts=True)\<close> returns the distinct
  rows in lexicographic order, each with the number of times it occurs.
\<close>

definition row_key :: "pixel \<Rightarrow> nat" where
  "row_key p = (case p of (r, g, b) \<Rightarrow> unat r * 65536 + unat g * 256 + unat b)"

definition np_unique :: "pixel list \<Rightarrow> (pixel \<times> nat) list" where
  "np_unique rows = map (\<lambda>c. (c, count_list rows c)) (sort_key row_key (remdups rows))"

text \<open>Lines 73-81, for one bucket with channels \<open>r\<close>, \<open>g\<close>, \<open>b\<close>.\<close>

definition saturation :: "int \<Rightarrow> int \<Rightarrow> int \<Rightarrow> rat" where
  "saturation r g b =
     (let max_val = max r (max g b); min_val = min r (min g b)
      in if max_val = 0 then 0 else of_int (max_val - min_val) / of_int max_val)"

definition brightness :: "int \<Rightarrow> int \<Rightarrow> int \<Rightarrow> rat" where
  "brightness r g b = of_int (r * 299 + g * 587 + b * 114) / 1000"

definition vibrancy_score :: "nat \<Rightarrow> int \<Rightarrow> int \<Rightarrow> int \<Rightarrow> nat \<Rightarrow> rat" where
  "vibrancy_score n_pixels r g b count =
     saturation r g b * (6 / 10) + (brightness r g b / 255) * (2 / 10)
       + (of_nat count / of_nat n_pixels) * (2 / 10)"

text \<open>The test of line 84 without its comparison against the best score so far.\<close>

definition bucket_saturation :: "pixel \<Rightarrow> rat" where
  "bucket_saturation c = (case c of (r, g, b) \<Rightarrow> saturation (uint r) (uint g) (uint b))"

definition bucket_brightness :: "pixel \<Rightarrow> rat" where
  "bucket_brightness c = (case c of (r, g, b) \<Rightarrow> brightness (uint r) (uint g) (uint b))"

definition eligible :: "pixel \<Rightarrow> bool" where
  "eligible c =
     (80 < bucket_brightness c \<and> bucket_brightness c < 200 \<and> bucket_saturation c > 2 / 10)"

text \<open>
  One iteration of the loop of lines 69-86. The state is
  \<^verbatim>\<open>(best_color, best_score)\<close>; \<open>n_pixels\<close> is \<^verbatim>\<open>len(filtered_pixels)\<close>.
\<close>

definition scan_step :: "nat \<Rightarrow> pixel option \<times> rat \<Rightarrow> pixel \<times> nat \<Rightarrow> pixel option \<times> rat" where
  "scan_step n_pixels st cc =
     (case st of (best_color, best_score) \<Rightarrow>
      case cc of (color, count) \<Rightarrow>
      case color of (r, g, b) \<Rightarrow>
        let score = vibrancy_score n_pixels (uint r) (uint g) (uint b) count
        in if eligible color \<and> score > best_score then (Some color, score)
           else (best_color, best_score))"

definition select_best :: "nat \<Rightarrow> (pixel \<times> nat) list \<Rightarrow> pixel option \<times> rat" where
  "select_best n_pixels ucs = foldl (scan_step n_pixels) (None, 0) ucs"

text \<open>
  Lines 92-95: \<^verbatim>\<open>min(255, int(c * 1.2))\<close>. Lines 98-103: the second boost. The division
  \<^verbatim>\<open>120 / brightness\<close> raises when the brightness is zero.
\<close>

definition enhance :: "int \<Rightarrow> int" where
  "enhance c = min 255 (py_int (of_int c * (12 / 10)))"

definition boost_channel :: "rat \<Rightarrow> int \<Rightarrow> int" where
  "boost_channel boost c = min 255 (py_int (of_int c * boost))"

definition postprocess :: "pixel \<Rightarrow> py_error + int \<times> int \<times> int" where
  "postprocess best_color =
     (case best_color of (r0, g0, b0) \<Rightarrow>
        let r = enhance (uint r0); g = enhance (uint g0); b = enhance (uint b0);
            br = brightness r g b
        in if br < 120 then
             (if br = 0 then Inl ZeroDivisionError
              else let boost = 120 / br
                   in Inr (boost_channel boost r, boost_channel boost g, boost_channel boost b))
           else Inr (r, g, b))"

text \<open>
  The body of the \<^verbatim>\<open>try\<close> block. Its argument is the flattened result of
  \<^verbatim>\<open>image.resize((100, 100), LANCZOS)\<close>, or the exception that Pillow or NumPy raised.
  \<open>None\<close> stands for leaving the block without a \<^verbatim>\<open>return\<close>.
\<close>

definition try_body :: "py_error + pixel list \<Rightarrow> py_error + string option" where
  "try_body resized =
     (case resized of
        Inl e \<Rightarrow> Inl e
      | Inr pixels \<Rightarrow>
          let filtered_pixels = filter_pixels pixels
          in if length filtered_pixels = 0 then Inr (Some default_color)
             else
               let grouped_pixels = map group_pixel filtered_pixels;
                   best = fst (select_best (length filtered_pixels) (np_unique grouped_pixels))
               in case best of
                    None \<Rightarrow> Inr None
                  | Some best_color \<Rightarrow>
                      (case postprocess best_color of
                         Inl e \<Rightarrow> Inl e
                       | Inr (r, g, b) \<Rightarrow> Inr (Some (hex_color r g b))))"

text \<open>
  Lines 42-111: \<^verbatim>\<open>except Exception\<close> swallows the exception, and both that path and the
  path that leaves the block without returning end in \<^verbatim>\<open>return self.default_color\<close>.
\<close>

definition detect_dominant_color :: "py_error + pixel list \<Rightarrow> py_error + string" where
  "detect_dominant_color resized =
     (case try_body resized of
        Inl e \<Rightarrow> Inr default_color
      | Inr None \<Rightarrow> Inr default_color
      | Inr (Some hex) \<Rightarrow> Inr hex)"

subsection \<open>Grid detection and the source of each band\<close>

text \<open>
  The decoded source image: its size, and what \<^verbatim>\<open>resize((100, 100))\<close> followed by
  \<^verbatim>\<open>reshape(-1, 3)\<close> yields for it.
\<close>

record source_image =
  width :: int
  height :: int
  resized :: "py_error + pixel list"

text \<open>A Pillow box \<^verbatim>\<open>(left, upper, right, lower)\<close>.\<close>

type_synonym box = "int \<times> int \<times> int \<times> int"

text \<open>Lines 164-165 of \<^verbatim>\<open>design.py\<close>: \<^verbatim>\<open>0.8 <= aspect_ratio <= 1.25\<close>.\<close>

definition is_grid :: "int \<Rightarrow> int \<Rightarrow> py_error + bool" where
  "is_grid w h =
     (case true_div w h of
        Inl e \<Rightarrow> Inl e
      | Inr aspect_ratio \<Rightarrow> Inr (8 / 10 \<le> aspect_ratio \<and> aspect_ratio \<le> 125 / 100))"

text \<open>
  Lines 144-145 of \<^verbatim>\<open>template.py\<close> (JavaScript):
  \<^verbatim>\<open>aspectRatio > 0.8 && aspectRatio < 1.25\<close>. A division by zero yields an infinity or
  a NaN there, and both comparisons cannot hold of either.
\<close>

definition isGrid :: "int \<Rightarrow> int \<Rightarrow> bool" where
  "isGrid w h =
     (if h = 0 then False
      else (8 / 10 :: rat) < of_int w / of_int h \<and> (of_int w / of_int h :: rat) < 125 / 100)"

text \<open>
  Lines 167-184: the crop boxes of the top and of the bottom image. In single image
  mode both are the whole image.
\<close>

definition band_sources :: "int \<Rightarrow> int \<Rightarrow> py_error + box \<times> box" where
  "band_sources w h =
     (case is_grid w h of
        Inl e \<Rightarrow> Inl e
      | Inr True \<Rightarrow>
          let grid_width = w div 2; grid_height = h div 2
          in Inr ((0, 0, grid_width, grid_height), (grid_width, grid_height, w, h))
      | Inr False \<Rightarrow> Inr ((0, 0, w, h), (0, 0, w, h)))"

subsection \<open>Fitting a band\<close>

text \<open>
  Lines 188-202 and 207-224. The band image is scaled to the canvas width; it is then
  cropped around its centre (\<open>CropToFill crop_start\<close>) or pasted into a white image of
  the band's size (\<open>Letterbox paste_y\<close>). Pillow's \<^verbatim>\<open>resize\<close> refuses a size below one
  pixel. \<open>final_size\<close> is the size of the image handed to \<^verbatim>\<open>canvas.paste\<close>: for a crop
  with box \<^verbatim>\<open>(0, crop_start, w, crop_start + target)\<close> it is right minus left by
  lower minus upper.
\<close>

datatype fit = CropToFill int | Letterbox int

record band =
  band_source :: box
  scaled_size :: "int \<times> int"
  band_fit :: fit
  final_size :: "int \<times> int"
  pasted_at :: "int \<times> int"

definition process_band :: "box \<Rightarrow> int \<Rightarrow> int \<times> int \<Rightarrow> py_error + band" where
  "process_band src target_height paste_pos =
     (case src of (x0, y0, x1, y1) \<Rightarrow>
      case true_div (x1 - x0) (y1 - y0) of
        Inl e \<Rightarrow> Inl e
      | Inr aspect \<Rightarrow>
          (case float_div (of_int canvas_width) aspect of
             Inl e \<Rightarrow> Inl e
           | Inr q \<Rightarrow>
               let scaled_width = canvas_width; scaled_height = py_int q
               in if scaled_height < 1 then Inl (ValueError ''height and width must be > 0'')
                  else if scaled_height \<ge> target_height then
                    let crop_start = (scaled_height - target_height) div 2
                    in Inr \<lparr>band_source = src,
                            scaled_size = (scaled_width, scaled_height),
                            band_fit = CropToFill crop_start,
                            final_size = (scaled_width - 0, (crop_start + target_height) - crop_start),
                            pasted_at = paste_pos\<rparr>
                  else
                    let paste_y = (target_height - scaled_height) div 2
                    in Inr \<lparr>band_source = src,
                            scaled_size = (scaled_width, scaled_height),
                            band_fit = Letterbox paste_y,
                            final_size = (canvas_width, target_height),
                            pasted_at = paste_pos\<rparr>))"

definition plan_bands :: "source_image \<Rightarrow> py_error + band \<times> band" where
  "plan_bands img =
     (case band_sources (width img) (height img) of
        Inl e \<Rightarrow> Inl e
      | Inr (top_box, bottom_box) \<Rightarrow>
          (case process_band top_box top_image_height (0, 0) of
             Inl e \<Rightarrow> Inl e
           | Inr top_b \<Rightarrow>
               let bottom_y = top_image_height + banner_height
               in (case process_band bottom_box bottom_image_height (0, bottom_y) of
                     Inl e \<Rightarrow> Inl e
                   | Inr bottom_b \<Rightarrow> Inr (top_b, bottom_b))))"

subsection \<open>Text layout\<close>

text \<open>
  \<^verbatim>\<open>str.split()\<close> without arguments splits at runs of white space and returns no empty
  word. The ASCII white space of \<^verbatim>\<open>str.isspace\<close> is the blank, the characters 9 to 13
  and the characters 28 to 31.
\<close>

definition is_space :: "char \<Rightarrow> bool" where
  "is_space c = (let n = (of_char c :: nat) in n = 32 \<or> (9 \<le> n \<and> n \<le> 13) \<or> (28 \<le> n \<and> n \<le> 31))"

fun split_acc :: "string \<Rightarrow> string \<Rightarrow> string list" where
  "split_acc acc [] = (if acc = [] then [] else [acc])"
| "split_acc acc (c # cs) =
     (if is_space c then (if acc = [] then split_acc [] cs else acc # split_acc [] cs)
      else split_acc (acc @ [c]) cs)"

definition split_ws :: "string \<Rightarrow> string list" where
  "split_ws s = split_acc [] s"

text \<open>
  Lines 257-274. \<open>text_width\<close> stands for the width of \<^verbatim>\<open>draw.textbbox\<close> with the
  loaded font. A string is false in a Python condition exactly when it is empty.
  \<open>wrap_step\<close> is one iteration of the loop over the words, on the state
  \<^verbatim>\<open>(lines, current_line)\<close>; \<open>wrap_lines\<close> runs it and appends the last line.
\<close>

definition wrap_step :: "(string \<Rightarrow> int) \<Rightarrow> int \<Rightarrow> string list \<times> string \<Rightarrow> string \<Rightarrow> string list \<times> string" where
  "wrap_step text_width max_width st word =
     (case st of (lines, current_line) \<Rightarrow>
        let test_line = current_line @ (if current_line \<noteq> [] then '' '' else []) @ word
        in if text_width test_line > max_width \<and> current_line \<noteq> []
           then (lines @ [current_line], word)
           else (lines, test_line))"

definition wrap_lines :: "(string \<Rightarrow> int) \<Rightarrow> int \<Rightarrow> string list \<Rightarrow> string list" where
  "wrap_lines text_width max_width words =
     (case foldl (wrap_step text_width max_width) ([], []) words of
        (lines, current_line) \<Rightarrow> if current_line \<noteq> [] then lines @ [current_line] else lines)"

definition text_layout :: "(string \<Rightarrow> int) \<Rightarrow> string \<Rightarrow> string list" where
  "text_layout text_width title =
     wrap_lines text_width (canvas_width - 80) (split_ws (str_upper title))"

text \<open>\<^verbatim>\<open>' '.join(ws)\<close>, used to state what a line consists of.\<close>

fun join_words :: "string list \<Rightarrow> string" where
  "join_words [] = []"
| "join_words [w] = w"
| "join_words (w # v # ws) = w @ '' '' @ join_words (v # ws)"

text \<open>
  A width function that is not monotone: the word \<open>AAA\<close> alone is wider than any line,
  every other string has width zero.
\<close>

definition spiky_width :: "string \<Rightarrow> int" where
  "spiky_width s = (if s = ''AAA'' then 1000 else 0)"

subsection \<open>\<^verbatim>\<open>create_color_matched_template\<close>\<close>

text \<open>Lines 153-158. \<^verbatim>\<open>manual_color or self.default_color\<close>: \<^verbatim>\<open>None\<close> and the empty
  string are false.\<close>

definition resolve_color :: "bool \<Rightarrow> string option \<Rightarrow> source_image \<Rightarrow> py_error + string" where
  "resolve_color use_auto_color manual_color img =
     (if use_auto_color then detect_dominant_color (resized img)
      else Inr (case manual_color of
                  None \<Rightarrow> default_color
                | Some s \<Rightarrow> if s \<noteq> [] then s else default_color))"

text \<open>
  Lines 282-291: every line is drawn three times, with the fills
  \<^verbatim>\<open>'rgba(0,0,0,0.5)'\<close>, \<^verbatim>\<open>'rgba(0,0,0,0.3)'\<close> and \<^verbatim>\<open>self.text_color\<close>. Pillow parses each
  fill with its colour parser \<open>getrgb\<close>, which raises for a string it does not know.
\<close>

definition text_color :: string where
  "text_color = ''#FFFFFF''"

fun draw_lines :: "(string \<Rightarrow> py_error + int \<times> int \<times> int) \<Rightarrow> string list \<Rightarrow> py_error + unit" where
  "draw_lines getrgb [] = Inr ()"
| "draw_lines getrgb (line # lines) =
     (case getrgb ''rgba(0,0,0,0.5)'' of
        Inl e \<Rightarrow> Inl e
      | Inr _ \<Rightarrow>
          (case getrgb ''rgba(0,0,0,0.3)'' of
             Inl e \<Rightarrow> Inl e
           | Inr _ \<Rightarrow>
               (case getrgb text_color of
                  Inl e \<Rightarrow> Inl e
                | Inr _ \<Rightarrow> draw_lines getrgb lines)))"

text \<open>
  What the finished canvas holds: the two pasted bands, the box and the fill passed to
  \<^verbatim>\<open>draw.rectangle\<close> for the banner, and the lines of text. The dotted borders (lines
  236-250) are left out; their fill \<^verbatim>\<open>'white'\<close> is the one \<^verbatim>\<open>Image.new\<close> has parsed
  before.
\<close>

record canvas =
  canvas_size :: "int \<times> int"
  top_band :: band
  bottom_band :: band
  banner_box :: box
  banner_fill :: string
  banner_rgb :: "int \<times> int \<times> int"
  text_lines :: "string list"

text \<open>
  Lines 149-293. The inputs that Pillow decides are the parameters \<open>getrgb\<close> (the colour
  parser), \<open>text_width\<close> (the font metrics) and \<open>opened\<close> (the result of
  \<^verbatim>\<open>Image.open(path).convert('RGB')\<close>). The first exception raised ends the call.
\<close>

definition create_color_matched_template ::
  "(string \<Rightarrow> py_error + int \<times> int \<times> int) \<Rightarrow> (string \<Rightarrow> int) \<Rightarrow> py_error + source_image
     \<Rightarrow> string \<Rightarrow> bool \<Rightarrow> string option \<Rightarrow> py_error + canvas \<times> string" where
  "create_color_matched_template getrgb text_width opened title use_auto_color manual_color =
     (case opened of
        Inl e \<Rightarrow> Inl e
      | Inr source_img \<Rightarrow>
     (case resolve_color use_auto_color manual_color source_img of
        Inl e \<Rightarrow> Inl e
      | Inr detected_color \<Rightarrow>
     (case getrgb ''white'' of
        Inl e \<Rightarrow> Inl e
      | Inr _ \<Rightarrow>
     (case plan_bands source_img of
        Inl e \<Rightarrow> Inl e
      | Inr (top_b, bottom_b) \<Rightarrow>
          let banner_y = top_image_height
          in (case getrgb detected_color of
                Inl e \<Rightarrow> Inl e
              | Inr rgb \<Rightarrow>
                  let lines = text_layout text_width title
                  in (case draw_lines getrgb lines of
                        Inl e \<Rightarrow> Inl e
                      | Inr _ \<Rightarrow>
                          Inr (\<lparr>canvas_size = (canvas_width, canvas_height),
                                top_band = top_b,
                                bottom_band = bottom_b,
                                banner_box = (0, banner_y, canvas_width, banner_y + banner_height),
                                banner_fill = detected_color,
                                banner_rgb = rgb,
                                text_lines = lines\<rparr>,
                               detected_color)))))))"

text \<open>
  The pixel rows an operation writes. \<^verbatim>\<open>canvas.paste(im, (x, y))\<close> writes the rows
  \<open>y\<close> up to, not including, \<open>y\<close> plus the height of \<open>im\<close>.
  \<^verbatim>\<open>ImageDraw.rectangle([x0, y0, x1, y1])\<close> includes both corner points, so it writes the rows
  \<open>y0\<close> up to and including \<open>y1\<close>.
\<close>

definition paste_rows :: "band \<Rightarrow> int set" where
  "paste_rows bd = {snd (pasted_at bd) ..< snd (pasted_at bd) + snd (final_size bd)}"

definition rectangle_rows :: "box \<Rightarrow> int set" where
  "rectangle_rows bx = (case bx of (x0, y0, x1, y1) \<Rightarrow> {y0 .. y1})"

text \<open>
  Inputs used to run the model. \<open>strict_rgb\<close> is a colour parser that knows five strings
  only and raises for every other one, as Pillow's parser does for a string that is
  neither a colour name nor of one of its numeric forms. The two images are of one
  colour, 800 by 800 and 801 by 799.
\<close>

definition strict_rgb :: "string \<Rightarrow> py_error + int \<times> int \<times> int" where
  "strict_rgb s =
     (if s = ''white'' \<or> s = ''#FFFFFF'' then Inr (255, 255, 255)
      else if s = ''#FF9800'' then Inr (255, 152, 0)
      else if s = ''#112233'' then Inr (17, 34, 51)
      else if s = ''#FF2C2C'' then Inr (255, 44, 44)
      else Inl (ValueError (''unknown color specifier: '' @ s)))"

definition square_image :: source_image where
  "square_image = \<lparr>width = 800, height = 800, resized = Inr (replicate 10000 (230, 40, 40))\<rparr>"

definition odd_image :: source_image where
  "odd_image = \<lparr>width = 801, height = 799, resized = Inr (replicate 10000 (230, 40, 40))\<rparr>"

subsection \<open>Notions used to state and prove the properties of the text layout\<close>

text \<open>
  The loop of lines 262-274 keeps the current line as a string. \<open>group_step\<close> and
  \<open>wrap_groups\<close> are the same loop on lists of words: joined with blanks, the groups are
  the lines (lemma \<open>wrap_lines_groups\<close>).
\<close>

definition group_step :: "(string \<Rightarrow> int) \<Rightarrow> int \<Rightarrow> string list list \<times> string list \<Rightarrow> string
    \<Rightarrow> string list list \<times> string list" where
  "group_step text_width max_width st word =
     (case st of (groups, current) \<Rightarrow>
        if text_width (join_words (current @ [word])) > max_width \<and> current \<noteq> []
        then (groups @ [current], [word])
        else (groups, current @ [word]))"

definition wrap_groups :: "(string \<Rightarrow> int) \<Rightarrow> int \<Rightarrow> string list \<Rightarrow> string list list" where
  "wrap_groups text_width max_width words =
     (case foldl (group_step text_width max_width) ([], []) words of
        (groups, current) \<Rightarrow> if current \<noteq> [] then groups @ [current] else groups)"

text \<open>
  \<open>line_ok\<close>: a line of two or more words fits the width \<open>m\<close>. \<open>forced\<close>: every line
  but the last was closed because the first word of the next line did not fit on it.
\<close>

definition line_ok :: "(string \<Rightarrow> int) \<Rightarrow> int \<Rightarrow> string list \<Rightarrow> bool" where
  "line_ok tw m g = (2 \<le> length g \<longrightarrow> tw (join_words g) \<le> m)"

fun forced :: "(string \<Rightarrow> int) \<Rightarrow> int \<Rightarrow> string list list \<Rightarrow> bool" where
  "forced tw m (g # g' # gs) = (tw (join_words (g @ [hd g'])) > m \<and> forced tw m (g' # gs))"
| "forced tw m [g] = True"
| "forced tw m [] = True"

text \<open>A monospaced font: every character, the blank included, is 30 units wide.\<close>

definition mono_width :: "string \<Rightarrow> int" where
  "mono_width s = 30 * int (length s)"

section \<open>Properties of the colour analysis\<close>

subsection \<open>Buckets that cannot win\<close>

lemma saturation_gray: "saturation v v v = 0"
  by (simp add: saturation_def)

lemma not_eligible_gray: "\<not> eligible (v, v, v)"
  by (simp add: eligible_def bucket_saturation_def saturation_gray)

lemma group_pixel_gray: "group_pixel (v, v, v) = ((v div 32) * 32, (v div 32) * 32, (v div 32) * 32)"
  by (simp add: group_pixel_def)

lemma set_np_unique: "fst ` set (np_unique rows) = set rows"
  by (simp add: np_unique_def image_image)

lemma scan_step_ineligible: "\<not> eligible (fst cc) \<Longrightarrow> scan_step n st cc = st"
  by (cases st; cases cc; cases "fst cc") (simp add: scan_step_def Let_def)

lemma foldl_scan_ineligible:
  "(\<And>cc. cc \<in> set ucs \<Longrightarrow> \<not> eligible (fst cc)) \<Longrightarrow> foldl (scan_step n) st ucs = st"
  by (induction ucs arbitrary: st) (simp_all add: scan_step_ineligible)

lemma select_best_none:
  assumes "\<And>c. c \<in> set rows \<Longrightarrow> \<not> eligible c"
  shows "select_best n (np_unique rows) = (None, 0)"
proof -
  have "\<not> eligible (fst cc)" if "cc \<in> set (np_unique rows)" for cc
  proof -
    from that have "fst cc \<in> set rows" using set_np_unique [of rows] by blast
    then show ?thesis by (rule assms)
  qed
  then show ?thesis unfolding select_best_def by (rule foldl_scan_ineligible)
qed

lemma no_eligible_default:
  assumes "\<And>p. p \<in> set (filter_pixels pixels) \<Longrightarrow> \<not> eligible (group_pixel p)"
  shows "detect_dominant_color (Inr pixels) = Inr default_color"
proof -
  have "select_best n (np_unique (map group_pixel (filter_pixels pixels))) = (None, 0)" for n
    by (rule select_best_none) (use assms in auto)
  then show ?thesis
    by (simp add: detect_dominant_color_def try_body_def Let_def)
qed

lemma detect_total: "\<exists>hex. detect_dominant_color res = Inr hex"
  by (simp add: detect_dominant_color_def split: sum.split option.split)

lemma detect_error_default:
  "try_body res = Inl e \<Longrightarrow> detect_dominant_color res = Inr default_color"
  by (simp add: detect_dominant_color_def)

text \<open>
  Claim C6. For every image in which every pixel has equal red, green and blue
  channels (pure gray or white), the analysis returns exactly the fallback colour
  \<open>#FF9800\<close>. The hypothesis is stated on the pixels that the analysis reads, the
  100 by 100 resampled image: Pillow resamples each channel with the same weights, so
  equal channels stay equal.
\<close>

theorem gray_image_default:
  assumes "\<forall>p \<in> set pixels. fst p = fst (snd p) \<and> fst (snd p) = snd (snd p)"
  shows "detect_dominant_color (Inr pixels) = Inr ''#FF9800''"
proof -
  have "\<not> eligible (group_pixel p)" if "p \<in> set (filter_pixels pixels)" for p
  proof -
    from that have "p \<in> set pixels" by (simp add: filter_pixels_def)
    with assms obtain v where "p = (v, v, v)" by (cases p) auto
    then show ?thesis by (simp add: group_pixel_gray not_eligible_gray)
  qed
  then have "detect_dominant_color (Inr pixels) = Inr default_color" by (rule no_eligible_default)
  then show ?thesis by (simp add: default_color_def)
qed

theorem gray_image_default_witness:
  "detect_dominant_color (Inr [(128, 128, 128), (255, 255, 255), (17, 17, 17)]) = Inr ''#FF9800''"
  using gray_image_default [of "[(128, 128, 128), (255, 255, 255), (17, 17, 17)]"] by simp

text \<open>
  Claim C9. \<^verbatim>\<open>detect_dominant_color\<close> never raises: it always returns a colour. It
  returns the fallback colour \<open>#FF9800\<close> whenever the body of its \<^verbatim>\<open>try\<close> block raises
  (a corrupt image among the causes), whenever every pixel is near white, and whenever
  no bucket passes the eligibility test.
\<close>

theorem detect_never_raises:
  "(\<exists>hex. detect_dominant_color res = Inr hex)
   \<and> (\<forall>e. try_body res = Inl e \<longrightarrow> detect_dominant_color res = Inr ''#FF9800'')
   \<and> (\<forall>pixels. res = Inr pixels \<and> filter_pixels pixels = []
         \<longrightarrow> detect_dominant_color res = Inr ''#FF9800'')
   \<and> (\<forall>pixels. res = Inr pixels
         \<and> (\<forall>p \<in> set (filter_pixels pixels). \<not> eligible (group_pixel p))
         \<longrightarrow> detect_dominant_color res = Inr ''#FF9800'')"
proof (intro conjI allI impI)
  show "\<exists>hex. detect_dominant_color res = Inr hex" by (rule detect_total)
next
  fix e assume "try_body res = Inl e"
  then show "detect_dominant_color res = Inr ''#FF9800''"
    by (simp add: detect_error_default default_color_def)
next
  fix pixels assume "res = Inr pixels \<and> filter_pixels pixels = []"
  then show "detect_dominant_color res = Inr ''#FF9800''"
    by (simp add: detect_dominant_color_def try_body_def default_color_def)
next
  fix pixels
  assume a: "res = Inr pixels \<and> (\<forall>p \<in> set (filter_pixels pixels). \<not> eligible (group_pixel p))"
  then have "detect_dominant_color (Inr pixels) = Inr default_color"
    by (intro no_eligible_default) blast
  with a show "detect_dominant_color res = Inr ''#FF9800''"
    by (simp add: default_color_def)
qed

theorem detect_never_raises_witness:
  "try_body (Inl (OSError ''cannot identify image file'')) = Inl (OSError ''cannot identify image file'')
   \<and> detect_dominant_color (Inl (OSError ''cannot identify image file'')) = Inr ''#FF9800''
   \<and> filter_pixels [(255, 255, 255), (250, 241, 255)] = []
   \<and> detect_dominant_color (Inr [(255, 255, 255), (250, 241, 255)]) = Inr ''#FF9800''"
proof -
  have t: "try_body (Inl (OSError ''cannot identify image file'')) = Inl (OSError ''cannot identify image file'')"
    by (simp add: try_body_def)
  have f: "filter_pixels [(255, 255, 255), (250, 241, 255)] = []"
    by (simp add: filter_pixels_def near_white_def)
  from t detect_never_raises [of "Inl (OSError ''cannot identify image file'')"]
  have 1: "detect_dominant_color (Inl (OSError ''cannot identify image file'')) = Inr ''#FF9800''"
    by blast
  from f detect_never_raises [of "Inr [(255, 255, 255), (250, 241, 255)]"]
  have 2: "detect_dominant_color (Inr [(255, 255, 255), (250, 241, 255)]) = Inr ''#FF9800''"
    by blast
  from t f 1 2 show ?thesis by blast
qed

subsection \<open>The winning bucket\<close>

lemma brightness_nonneg: "0 \<le> r \<Longrightarrow> 0 \<le> g \<Longrightarrow> 0 \<le> b \<Longrightarrow> 0 \<le> brightness r g b"
  by (simp add: brightness_def)

lemma score_pos:
  assumes "eligible (r, g, b)"
  shows "0 < vibrancy_score n (uint r) (uint g) (uint b) k"
proof -
  from assms have s: "2 / 10 < saturation (uint r) (uint g) (uint b)"
    by (simp add: eligible_def bucket_saturation_def)
  have b: "0 \<le> brightness (uint r) (uint g) (uint b)"
    by (rule brightness_nonneg) simp_all
  have c: "(0::rat) \<le> of_nat k / of_nat n" by simp
  from s have "0 < saturation (uint r) (uint g) (uint b) * (6 / 10)" by simp
  moreover from b have "0 \<le> (brightness (uint r) (uint g) (uint b) / 255) * (2 / 10)" by simp
  moreover from c have "(0::rat) \<le> (of_nat k / of_nat n) * (2 / 10)" by simp
  ultimately show ?thesis unfolding vibrancy_score_def by linarith
qed

lemma scan_step_cases:
  "scan_step n (bc, bs) ((r, g, b), k) =
     (if eligible (r, g, b) \<and> vibrancy_score n (uint r) (uint g) (uint b) k > bs
      then (Some (r, g, b), vibrancy_score n (uint r) (uint g) (uint b) k) else (bc, bs))"
  by (simp add: scan_step_def Let_def)

lemma foldl_scan_keep:
  assumes "\<And>cc. cc \<in> set ucs \<Longrightarrow> \<not> eligible (fst cc) \<or> fst cc = c"
  shows "fst (foldl (scan_step n) (Some c, s) ucs) = Some c"
  using assms
proof (induction ucs arbitrary: s)
  case Nil
  then show ?case by simp
next
  case (Cons a ucs)
  obtain r g b k where a: "a = ((r, g, b), k)" by (metis prod_cases3 surj_pair)
  from Cons.prems [of a] have h: "\<not> eligible (r, g, b) \<or> (r, g, b) = c" by (simp add: a)
  have "\<exists>s'. scan_step n (Some c, s) a = (Some c, s')"
    using h by (auto simp: a scan_step_cases)
  then obtain s' where "scan_step n (Some c, s) a = (Some c, s')" ..
  moreover have "fst (foldl (scan_step n) (Some c, s') ucs) = Some c"
    by (rule Cons.IH) (use Cons.prems in auto)
  ultimately show ?case by simp
qed

lemma foldl_scan_find:
  assumes "\<And>cc. cc \<in> set ucs \<Longrightarrow> \<not> eligible (fst cc) \<or> fst cc = c"
    and "eligible c" and "c \<in> fst ` set ucs"
  shows "fst (foldl (scan_step n) (None, 0) ucs) = Some c"
  using assms
proof (induction ucs)
  case Nil
  then show ?case by simp
next
  case (Cons a ucs)
  obtain r g b k where a: "a = ((r, g, b), k)" by (metis prod_cases3 surj_pair)
  show ?case
  proof (cases "eligible (r, g, b)")
    case True
    with Cons.prems(1) [of a] have c: "(r, g, b) = c" by (simp add: a)
    from True have "0 < vibrancy_score n (uint r) (uint g) (uint b) k" by (rule score_pos)
    with True have "scan_step n (None, 0) a = (Some (r, g, b), vibrancy_score n (uint r) (uint g) (uint b) k)"
      unfolding a by (simp add: scan_step_cases)
    then have "scan_step n (None, 0) a = (Some c, vibrancy_score n (uint r) (uint g) (uint b) k)"
      by (simp add: c)
    moreover have "fst (foldl (scan_step n) (Some c, vibrancy_score n (uint r) (uint g) (uint b) k) ucs) = Some c"
      by (rule foldl_scan_keep) (use Cons.prems in auto)
    ultimately show ?thesis by simp
  next
    case False
    then have st: "scan_step n (None, 0) a = (None, 0)" by (simp add: a scan_step_cases)
    from False Cons.prems(2) have "fst a \<noteq> c" by (auto simp: a)
    with Cons.prems(3) have "c \<in> fst ` set ucs" by auto
    with Cons.IH Cons.prems have "fst (foldl (scan_step n) (None, 0) ucs) = Some c" by auto
    with st show ?thesis by simp
  qed
qed

lemma single_eligible_bucket:
  assumes "\<And>p. p \<in> set (filter_pixels pixels) \<Longrightarrow> \<not> eligible (group_pixel p) \<or> group_pixel p = c"
    and "eligible c" and "c \<in> group_pixel ` set (filter_pixels pixels)"
  shows "detect_dominant_color (Inr pixels) =
           (case postprocess c of Inl e \<Rightarrow> Inr default_color | Inr (r, g, b) \<Rightarrow> Inr (hex_color r g b))"
proof -
  let ?rows = "map group_pixel (filter_pixels pixels)"
  have ne: "filter_pixels pixels \<noteq> []" using assms(3) by auto
  have "fst (foldl (scan_step n) (None, 0) (np_unique ?rows)) = Some c" for n
  proof (rule foldl_scan_find)
    fix cc assume "cc \<in> set (np_unique ?rows)"
    then have "fst cc \<in> set ?rows" using set_np_unique [of ?rows] by blast
    then show "\<not> eligible (fst cc) \<or> fst cc = c" using assms(1) by auto
  next
    show "eligible c" by (rule assms(2))
  next
    show "c \<in> fst ` set (np_unique ?rows)" using assms(3) by (simp add: set_np_unique)
  qed
  then have "fst (select_best n (np_unique ?rows)) = Some c" for n
    by (simp add: select_best_def)
  with ne show ?thesis
    by (simp add: detect_dominant_color_def try_body_def Let_def split: sum.split prod.split)
qed

lemma near_white_bucket: "(240::8 word) < r \<Longrightarrow> (r div 32) * 32 = 224"
proof -
  assume "240 < r"
  then have "240 < unat r" by (simp add: word_less_nat_alt)
  moreover have "unat r < 256" using unsigned_less [of r, where ?'a = nat] by simp
  ultimately have "unat r div 32 = 7" by arith
  then have "unat (r div 32) = 7" by (simp add: unat_div)
  then have "r div 32 = 7" by (simp add: word_unat_eq_iff)
  then show ?thesis by simp
qed

lemma near_white_not_eligible: "near_white p \<Longrightarrow> \<not> eligible (group_pixel p)"
  by (cases p) (auto simp: near_white_def group_pixel_def near_white_bucket eligible_def
      bucket_saturation_def saturation_def)

lemma py_int_ge: "of_int c \<le> x \<Longrightarrow> 0 \<le> c \<Longrightarrow> c \<le> py_int x"
  by (auto simp: py_int_def le_floor_iff intro: order_trans)

lemma enhance_ge: "0 \<le> c \<Longrightarrow> c \<le> 255 \<Longrightarrow> c \<le> enhance c"
proof -
  assume c: "0 \<le> c" "c \<le> 255"
  then have "(of_int c :: rat) \<le> of_int c * (12 / 10)" by simp
  with c have "c \<le> py_int (of_int c * (12 / 10))" by (intro py_int_ge)
  with c show ?thesis by (simp add: enhance_def)
qed

lemma uint8_range: "0 \<le> uint (r :: 8 word) \<and> uint r \<le> 255"
  using unsigned_less [of r, where ?'a = int] by simp

lemma brightness_mono:
  "r \<le> r' \<Longrightarrow> g \<le> g' \<Longrightarrow> b \<le> b' \<Longrightarrow> brightness r g b \<le> brightness r' g' b'"
  by (simp add: brightness_def divide_right_mono)

lemma postprocess_eligible:
  assumes "eligible c"
  shows "\<exists>r g b. postprocess c = Inr (r, g, b)"
proof -
  obtain r0 g0 b0 where c: "c = (r0, g0, b0)" by (cases c)
  from assms have "80 < brightness (uint r0) (uint g0) (uint b0)"
    by (simp add: c eligible_def bucket_brightness_def)
  moreover have "brightness (uint r0) (uint g0) (uint b0)
      \<le> brightness (enhance (uint r0)) (enhance (uint g0)) (enhance (uint b0))"
    by (intro brightness_mono enhance_ge) (simp_all add: uint8_range)
  ultimately have "brightness (enhance (uint r0)) (enhance (uint g0)) (enhance (uint b0)) \<noteq> 0"
    by linarith
  then show ?thesis by (simp add: c postprocess_def Let_def)
qed

text \<open>
  Claim C3, amended. Let the pixels read by the analysis be of two colours only: a gray
  whose \<^emph>\<open>bucket\<close> (line 60: each channel floored to a multiple of 32) has saturation at
  most 0.2 and is therefore not eligible (the claim's 60 percent), and a patch whose
  bucket has brightness between 80 and 200 and saturation above 0.2 (the claim's 40
  percent). Then the colour returned is the post-processed bucket of the patch, whatever
  the two shares are: the number of pixels in the gray bucket does not let it pass the
  eligibility test. The condition is on the bucket of the gray, not on the gray itself:
  the test of line 84 reads the bucket, and the claim fails when only the gray itself
  has saturation at most 0.2 (shown after the witness).
\<close>

theorem patch_beats_gray:
  assumes "set pixels \<subseteq> {gray, patch}" and "patch \<in> set pixels"
    and "bucket_saturation (group_pixel gray) \<le> 2 / 10"
    and "80 < bucket_brightness (group_pixel patch)"
    and "bucket_brightness (group_pixel patch) < 200"
    and "bucket_saturation (group_pixel patch) > 2 / 10"
  shows "\<exists>r g b. postprocess (group_pixel patch) = Inr (r, g, b)
           \<and> detect_dominant_color (Inr pixels) = Inr (hex_color r g b)"
proof -
  have el: "eligible (group_pixel patch)" using assms(4-6) by (simp add: eligible_def)
  have ng: "\<not> eligible (group_pixel gray)" using assms(3) by (simp add: eligible_def)
  from el have "\<not> near_white patch" using near_white_not_eligible by blast
  with assms(2) have mem: "patch \<in> set (filter_pixels pixels)" by (simp add: filter_pixels_def)
  have "detect_dominant_color (Inr pixels) =
          (case postprocess (group_pixel patch) of
             Inl e \<Rightarrow> Inr default_color | Inr (r, g, b) \<Rightarrow> Inr (hex_color r g b))"
  proof (rule single_eligible_bucket)
    fix p assume "p \<in> set (filter_pixels pixels)"
    then have "p = gray \<or> p = patch" using assms(1) by (auto simp: filter_pixels_def)
    with ng show "\<not> eligible (group_pixel p) \<or> group_pixel p = group_pixel patch" by auto
  next
    show "eligible (group_pixel patch)" by (rule el)
  next
    show "group_pixel patch \<in> group_pixel ` set (filter_pixels pixels)" using mem by blast
  qed
  moreover from el obtain r g b where "postprocess (group_pixel patch) = Inr (r, g, b)"
    using postprocess_eligible by blast
  ultimately show ?thesis by simp
qed

lemma group_gray_example: "group_pixel (140, 135, 130) = (128, 128, 128)"
  by (simp add: group_pixel_def)

lemma group_patch_example: "group_pixel (230, 40, 40) = (224, 32, 32)"
  by (simp add: group_pixel_def)

lemma enhance_224: "enhance 224 = 255"
  by (simp add: enhance_def py_int_def)

lemma enhance_32: "enhance 32 = 38"
proof -
  have "\<lfloor>(192::rat) / 5\<rfloor> = 38" by (simp add: floor_eq_iff)
  then show ?thesis by (simp add: enhance_def py_int_def)
qed

lemma postprocess_example: "postprocess (224, 32, 32) = Inr (255, 44, 44)"
proof -
  have b: "brightness 255 38 38 = 102883 / 1000" by (simp add: brightness_def)
  have 1: "boost_channel (120000 / 102883) 255 = 255"
    by (simp add: boost_channel_def py_int_def min_def le_floor_iff)
  have "\<lfloor>(4560000::rat) / 102883\<rfloor> = 44" by (simp add: floor_eq_iff)
  then have 2: "boost_channel (120000 / 102883) 38 = 44"
    by (simp add: boost_channel_def py_int_def)
  show ?thesis by (simp add: postprocess_def enhance_224 enhance_32 Let_def b 1 2)
qed

lemma hex_example: "hex_color 255 44 44 = ''#FF2C2C''"
  by (simp add: hex_color_def hex2_def hexdigit_def str_upper_def upper_char_def)

theorem patch_beats_gray_witness:
  "detect_dominant_color (Inr (replicate 6000 (140, 135, 130) @ replicate 4000 (230, 40, 40)))
     = Inr ''#FF2C2C''"
proof -
  let ?px = "replicate 6000 (140, 135, 130) @ replicate 4000 (230, 40, 40) :: pixel list"
  have 1: "set ?px \<subseteq> {(140, 135, 130), (230, 40, 40)}" by auto
  have 2: "(230, 40, 40) \<in> set ?px" by simp
  have 3: "bucket_saturation (group_pixel (140, 135, 130)) \<le> 2 / 10"
    by (simp add: group_gray_example bucket_saturation_def saturation_def)
  have 4: "80 < bucket_brightness (group_pixel (230, 40, 40))"
    by (simp add: group_patch_example bucket_brightness_def brightness_def)
  have 5: "bucket_brightness (group_pixel (230, 40, 40)) < 200"
    by (simp add: group_patch_example bucket_brightness_def brightness_def)
  have 6: "bucket_saturation (group_pixel (230, 40, 40)) > 2 / 10"
    by (simp add: group_patch_example bucket_saturation_def saturation_def)
  from patch_beats_gray [OF 1 2 3 4 5 6]
  show ?thesis by (simp add: group_patch_example postprocess_example hex_example)
qed

subsection \<open>Two eligible buckets\<close>

lemma remdups_block: "remdups (replicate (Suc m) b) = [b]"
  by (induction m) simp_all

lemma remdups_two_blocks:
  "a \<noteq> b \<Longrightarrow> remdups (replicate (Suc n) a @ replicate (Suc m) b) = [a, b]"
proof (induction n)
  case 0
  then show ?case using remdups_block [of m b] by simp
next
  case (Suc n)
  then show ?case by simp
qed

lemma count_two_blocks:
  "a \<noteq> b \<Longrightarrow> count_list (replicate n a @ replicate m b) a = n
     \<and> count_list (replicate n a @ replicate m b) b = m"
  by (induction n; induction m) simp_all

lemma np_unique_two_blocks:
  assumes "a \<noteq> b" and "row_key a < row_key b"
  shows "np_unique (replicate (Suc n) a @ replicate (Suc m) b) = [(a, Suc n), (b, Suc m)]"
proof -
  have "sort_key row_key [a, b] = [a, b]" using assms(2) by simp
  then show ?thesis
    unfolding np_unique_def remdups_two_blocks [OF assms(1)]
    using count_two_blocks [OF assms(1), of "Suc n" "Suc m"] by simp
qed

lemma group_dull_example: "group_pixel (128, 127, 127) = (128, 96, 96)"
  by (simp add: group_pixel_def)

lemma group_olive_example: "group_pixel (128, 128, 96) = (128, 128, 96)"
  by (simp add: group_pixel_def)

lemma eligible_dull_bucket: "eligible (128, 96, 96)"
  by (simp add: eligible_def bucket_saturation_def saturation_def bucket_brightness_def brightness_def)

lemma eligible_olive_bucket: "eligible (128, 128, 96)"
  by (simp add: eligible_def bucket_saturation_def saturation_def bucket_brightness_def brightness_def)

lemma score_olive_less:
  "vibrancy_score 10000 128 128 96 4000 < vibrancy_score 10000 128 96 96 6000"
  by (simp add: vibrancy_score_def saturation_def brightness_def)

lemma select_dull:
  "select_best 10000 [((128, 96, 96), 6000), ((128, 128, 96), 4000)]
     = (Some (128, 96, 96), vibrancy_score 10000 128 96 96 6000)"
proof -
  have "0 < vibrancy_score 10000 (uint (128 :: 8 word)) (uint (96 :: 8 word)) (uint (96 :: 8 word)) 6000"
    using eligible_dull_bucket by (rule score_pos)
  then have 1: "scan_step 10000 (None, 0) ((128, 96, 96), 6000)
      = (Some (128, 96, 96), vibrancy_score 10000 128 96 96 6000)"
    by (simp add: scan_step_cases eligible_dull_bucket)
  have 2: "scan_step 10000 (Some (128, 96, 96), vibrancy_score 10000 128 96 96 6000) ((128, 128, 96), 4000)
      = (Some (128, 96, 96), vibrancy_score 10000 128 96 96 6000)"
    using score_olive_less by (simp add: scan_step_cases)
  show ?thesis by (simp add: select_best_def 1 2)
qed

lemma enhance_128: "enhance 128 = 153"
proof -
  have "\<lfloor>(768::rat) / 5\<rfloor> = 153" by (simp add: floor_eq_iff)
  then show ?thesis by (simp add: enhance_def py_int_def)
qed

lemma enhance_96: "enhance 96 = 115"
proof -
  have "\<lfloor>(576::rat) / 5\<rfloor> = 115" by (simp add: floor_eq_iff)
  then show ?thesis by (simp add: enhance_def py_int_def)
qed

lemma postprocess_dull: "postprocess (128, 96, 96) = Inr (153, 115, 115)"
  by (simp add: postprocess_def enhance_128 enhance_96 Let_def brightness_def)

lemma postprocess_olive: "postprocess (128, 128, 96) = Inr (153, 153, 115)"
  by (simp add: postprocess_def enhance_128 enhance_96 Let_def brightness_def)

lemma hex_dull: "hex_color 153 115 115 = ''#997373''"
  by (simp add: hex_color_def hex2_def hexdigit_def str_upper_def upper_char_def)

lemma hex_olive: "hex_color 153 153 115 = ''#999973''"
  by (simp add: hex_color_def hex2_def hexdigit_def str_upper_def upper_char_def)

text \<open>
  Claim C3 as written, with the condition on the gray itself, fails. The gray
  \<open>(128, 127, 127)\<close> has saturation \<open>1/128\<close>, but its bucket is \<open>(128, 96, 96)\<close>, with
  saturation 0.25 and luma 105.568: eligible. With 6000 such pixels and 4000 pixels of
  the patch \<open>(128, 128, 96)\<close>, whose bucket is eligible too, the gray bucket has the higher
  score, and the colour returned, \<open>#997373\<close>, is the post-processed gray bucket; the
  patch's bucket would have given \<open>#999973\<close>.
\<close>

theorem gray_bucket_beats_patch:
  "saturation 128 127 127 \<le> 2 / 10
   \<and> eligible (group_pixel (128, 128, 96))
   \<and> postprocess (group_pixel (128, 128, 96)) = Inr (153, 153, 115)
   \<and> hex_color 153 153 115 = ''#999973''
   \<and> group_pixel (128, 127, 127) = (128, 96, 96)
   \<and> postprocess (group_pixel (128, 127, 127)) = Inr (153, 115, 115)
   \<and> hex_color 153 115 115 = ''#997373''
   \<and> detect_dominant_color (Inr (replicate 6000 (128, 127, 127) @ replicate 4000 (128, 128, 96)))
       = Inr ''#997373''"
proof -
  let ?px = "replicate 6000 (128, 127, 127) @ replicate 4000 (128, 128, 96) :: pixel list"
  have f: "filter_pixels ?px = ?px" by (simp add: filter_pixels_def near_white_def)
  have g: "map group_pixel ?px = replicate (Suc 5999) (128, 96, 96) @ replicate (Suc 3999) (128, 128, 96)"
    by (simp add: group_dull_example group_olive_example)
  have u: "np_unique (map group_pixel ?px) = [((128, 96, 96), 6000), ((128, 128, 96), 4000)]"
    unfolding g by (subst np_unique_two_blocks) (simp_all add: row_key_def)
  have d: "detect_dominant_color (Inr ?px) = Inr (hex_color 153 115 115)"
    by (simp add: detect_dominant_color_def try_body_def f u select_dull postprocess_dull Let_def
        del: map_append map_replicate)
  have s: "saturation 128 127 127 \<le> 2 / 10" by (simp add: saturation_def)
  from s d show ?thesis
    by (simp add: group_dull_example group_olive_example eligible_olive_bucket postprocess_dull
        postprocess_olive hex_dull hex_olive)
qed

text \<open>
  Claim C1, evaluated on the code. An image whose 10000 resampled pixels are all
  \<open>(230, 40, 40)\<close> has the single bucket \<open>(224, 32, 32)\<close>, which is eligible. The first
  boost gives \<open>(255, 38, 38)\<close> with luma 102.883; the second boost multiplies by
  \<open>120 / 102.883\<close> and clamps the red channel at 255 again, so the colour returned,
  \<open>#FF2C2C\<close>, has luma 107.089: below the 120 that lines 97-103 are written to ensure.
\<close>

theorem boosted_color_below_120:
  "detect_dominant_color (Inr (replicate 10000 (230, 40, 40))) = Inr ''#FF2C2C''
   \<and> postprocess (group_pixel (230, 40, 40)) = Inr (255, 44, 44)
   \<and> brightness 255 44 44 = 107089 / 1000
   \<and> brightness 255 44 44 < 120"
proof -
  let ?px = "replicate 10000 (230, 40, 40) :: pixel list"
  have f: "filter_pixels ?px = ?px" by (simp add: filter_pixels_def near_white_def)
  have el: "eligible (224, 32, 32)"
    by (simp add: eligible_def bucket_saturation_def saturation_def bucket_brightness_def brightness_def)
  have "detect_dominant_color (Inr ?px) =
          (case postprocess (224, 32, 32) of
             Inl e \<Rightarrow> Inr default_color | Inr (r, g, b) \<Rightarrow> Inr (hex_color r g b))"
    by (rule single_eligible_bucket) (simp_all add: f group_patch_example el)
  then have "detect_dominant_color (Inr ?px) = Inr ''#FF2C2C''"
    by (simp add: postprocess_example hex_example)
  moreover have "brightness 255 44 44 = 107089 / 1000" by (simp add: brightness_def)
  ultimately show ?thesis by (simp add: group_patch_example postprocess_example)
qed

section \<open>Properties of the layout\<close>

subsection \<open>Grid detection\<close>

lemma is_grid_closed_interval:
  assumes "0 < h"
  shows "is_grid w h = Inr (4 * h \<le> 5 * w \<and> 4 * w \<le> 5 * h)"
proof -
  from assms have h: "(0::rat) < of_int h" by simp
  have "((8::rat) / 10 \<le> of_int w / of_int h) = (4 * h \<le> 5 * w)"
  proof -
    have "((8::rat) / 10 \<le> of_int w / of_int h) = ((8 / 10) * of_int h \<le> (of_int w :: rat))"
      using h by (simp add: pos_le_divide_eq)
    also have "\<dots> = ((of_int (4 * h) :: rat) \<le> of_int (5 * w))" by (simp add: field_simps)
    also have "\<dots> = (4 * h \<le> 5 * w)" by (simp only: of_int_le_iff)
    finally show ?thesis .
  qed
  moreover have "((of_int w :: rat) / of_int h \<le> 125 / 100) = (4 * w \<le> 5 * h)"
  proof -
    have "((of_int w :: rat) / of_int h \<le> 125 / 100) = ((of_int w :: rat) \<le> (125 / 100) * of_int h)"
      using h by (simp add: pos_divide_le_eq)
    also have "\<dots> = ((of_int (4 * w) :: rat) \<le> of_int (5 * h))" by (simp add: field_simps)
    also have "\<dots> = (4 * w \<le> 5 * h)" by (simp only: of_int_le_iff)
    finally show ?thesis .
  qed
  ultimately show ?thesis using assms by (simp add: is_grid_def true_div_def)
qed

text \<open>
  Claim C2, evaluated on the code. The grid test of \<^verbatim>\<open>design.py\<close> (lines 164-165) is the
  closed interval of the claim: the ratios 0.8 (800 by 1000) and 1.25 (1000 by 800) are
  grids, the ratios 0.79 and 1.26 are not. The grid test of \<^verbatim>\<open>template.py\<close> (lines
  144-145) is written with strict comparisons and classifies both boundary ratios as not
  a grid. Both quotients are the floating point numbers that the literals \<^verbatim>\<open>0.8\<close> and
  \<^verbatim>\<open>1.25\<close> denote, so the comparison of rationals is the comparison the code makes.
\<close>

theorem grid_boundary_differs:
  "is_grid 800 1000 = Inr True \<and> is_grid 1000 800 = Inr True
   \<and> is_grid 790 1000 = Inr False \<and> is_grid 1260 1000 = Inr False
   \<and> isGrid 800 1000 = False \<and> isGrid 1000 800 = False
   \<and> isGrid 790 1000 = False \<and> isGrid 1260 1000 = False"
  by (simp add: is_grid_def true_div_def isGrid_def)

subsection \<open>What a finished render holds\<close>

lemma band_heights_tile:
  "top_image_height + banner_height + bottom_image_height = canvas_height
   \<and> canvas_height = 1102 \<and> top_image_height = 400 \<and> banner_height = 120
   \<and> bottom_image_height = 582"
  by (simp add: bottom_image_height_def canvas_height_def top_image_height_def banner_height_def)

lemma process_band_props:
  assumes "process_band src target_height paste_pos = Inr bd"
  shows "band_source bd = src \<and> pasted_at bd = paste_pos
         \<and> final_size bd = (canvas_width, target_height)"
  using assms
  by (auto simp: process_band_def Let_def split: prod.splits sum.splits if_splits)

lemma plan_bands_props:
  assumes "plan_bands img = Inr (t, b)"
  shows "band_sources (width img) (height img) = Inr (band_source t, band_source b)
         \<and> pasted_at t = (0, 0) \<and> final_size t = (canvas_width, top_image_height)
         \<and> pasted_at b = (0, top_image_height + banner_height)
         \<and> final_size b = (canvas_width, bottom_image_height)"
proof -
  from assms obtain tb bb where bs: "band_sources (width img) (height img) = Inr (tb, bb)"
    and pt: "process_band tb top_image_height (0, 0) = Inr t"
    and pb: "process_band bb bottom_image_height (0, top_image_height + banner_height) = Inr b"
    by (auto simp: plan_bands_def Let_def split: sum.splits prod.splits)
  from process_band_props [OF pt] process_band_props [OF pb] bs show ?thesis by simp
qed

lemma create_props:
  assumes "create_color_matched_template getrgb tw opened title use_auto manual = Inr (cv, col)"
  shows "\<exists>img rgb. opened = Inr img
           \<and> resolve_color use_auto manual img = Inr col
           \<and> plan_bands img = Inr (top_band cv, bottom_band cv)
           \<and> getrgb col = Inr rgb
           \<and> banner_fill cv = col \<and> banner_rgb cv = rgb
           \<and> banner_box cv = (0, top_image_height, canvas_width, top_image_height + banner_height)
           \<and> canvas_size cv = (canvas_width, canvas_height)
           \<and> text_lines cv = text_layout tw title"
  using assms
  by (auto simp: create_color_matched_template_def Let_def split: sum.splits prod.splits)

lemma grid_sources:
  assumes "is_grid w h = Inr True"
  shows "band_sources w h = Inr ((0, 0, w div 2, h div 2), (w div 2, h div 2, w, h))"
  using assms by (simp add: band_sources_def Let_def)

text \<open>
  Claim C5. For every image that \<^verbatim>\<open>design.py\<close> classifies as a grid, of width \<open>w\<close> and
  height \<open>h\<close>, every finished render takes its top band from the box
  \<open>(0, 0) - (w div 2, h div 2)\<close> and its bottom band from the box
  \<open>(w div 2, h div 2) - (w, h)\<close>, where \<open>div\<close> is the floor division \<^verbatim>\<open>//\<close> of lines
  169-170: for an odd \<open>w\<close> or \<open>h\<close> the half is rounded down, and the bottom right box is
  one pixel larger than the top left one.
\<close>

theorem grid_band_sources:
  assumes "is_grid (width img) (height img) = Inr True"
    and "create_color_matched_template getrgb tw (Inr img) title use_auto manual = Inr (cv, col)"
  shows "band_source (top_band cv) = (0, 0, width img div 2, height img div 2)
         \<and> band_source (bottom_band cv) = (width img div 2, height img div 2, width img, height img)"
proof -
  from create_props [OF assms(2)] have "plan_bands img = Inr (top_band cv, bottom_band cv)"
    by auto
  from plan_bands_props [OF this] grid_sources [OF assms(1)] show ?thesis by simp
qed

lemma text_layout_empty: "text_layout tw [] = []"
  by (simp add: text_layout_def wrap_lines_def split_ws_def str_upper_def)

lemma process_band_odd_top:
  "process_band (0, 0, 400, 399) 400 (0, 0) =
     Inr \<lparr>band_source = (0, 0, 400, 399), scaled_size = (735, 733), band_fit = CropToFill 166,
          final_size = (735, 400), pasted_at = (0, 0)\<rparr>"
proof -
  have "\<lfloor>(58653::rat) / 80\<rfloor> = 733" by (simp add: floor_eq_iff)
  then show ?thesis
    by (simp add: process_band_def true_div_def float_div_def py_int_def canvas_width_def Let_def)
qed

lemma process_band_odd_bottom:
  "process_band (400, 399, 801, 799) 582 (0, 520) =
     Inr \<lparr>band_source = (400, 399, 801, 799), scaled_size = (735, 733), band_fit = CropToFill 75,
          final_size = (735, 582), pasted_at = (0, 520)\<rparr>"
proof -
  have "\<lfloor>(294000::rat) / 401\<rfloor> = 733" by (simp add: floor_eq_iff)
  then show ?thesis
    by (simp add: process_band_def true_div_def float_div_def py_int_def canvas_width_def Let_def)
qed

lemma is_grid_odd: "is_grid 801 799 = Inr True"
  by (simp add: is_grid_def true_div_def)

lemma plan_bands_odd:
  "plan_bands odd_image =
     Inr (\<lparr>band_source = (0, 0, 400, 399), scaled_size = (735, 733), band_fit = CropToFill 166,
           final_size = (735, 400), pasted_at = (0, 0)\<rparr>,
          \<lparr>band_source = (400, 399, 801, 799), scaled_size = (735, 733), band_fit = CropToFill 75,
           final_size = (735, 582), pasted_at = (0, 520)\<rparr>)"
proof -
  have "band_sources 801 799 = Inr ((0, 0, 400, 399), (400, 399, 801, 799))"
    using grid_sources [OF is_grid_odd] by simp
  then show ?thesis
    by (simp add: plan_bands_def odd_image_def band_heights_tile Let_def
        process_band_odd_top process_band_odd_bottom)
qed

lemma create_odd_auto:
  "create_color_matched_template strict_rgb tw (Inr odd_image) [] True None =
     Inr (\<lparr>canvas_size = (735, 1102),
           top_band = \<lparr>band_source = (0, 0, 400, 399), scaled_size = (735, 733),
                       band_fit = CropToFill 166, final_size = (735, 400), pasted_at = (0, 0)\<rparr>,
           bottom_band = \<lparr>band_source = (400, 399, 801, 799), scaled_size = (735, 733),
                          band_fit = CropToFill 75, final_size = (735, 582), pasted_at = (0, 520)\<rparr>,
           banner_box = (0, 400, 735, 520),
           banner_fill = ''#FF2C2C'', banner_rgb = (255, 44, 44), text_lines = []\<rparr>, ''#FF2C2C'')"
proof -
  have f: "filter_pixels (replicate 10000 (230, 40, 40)) = replicate 10000 (230, 40, 40)"
    by (simp add: filter_pixels_def near_white_def)
  have el: "eligible (224, 32, 32)"
    by (simp add: eligible_def bucket_saturation_def saturation_def bucket_brightness_def brightness_def)
  have "detect_dominant_color (Inr (replicate 10000 (230, 40, 40))) =
          (case postprocess (224, 32, 32) of
             Inl e \<Rightarrow> Inr default_color | Inr (r, g, b) \<Rightarrow> Inr (hex_color r g b))"
    by (rule single_eligible_bucket) (simp_all add: f group_patch_example el)
  then have "detect_dominant_color (Inr (replicate 10000 (230, 40, 40))) = Inr ''#FF2C2C''"
    by (simp add: postprocess_example hex_example)
  then have "resolve_color True None odd_image = Inr ''#FF2C2C''"
    by (simp add: resolve_color_def odd_image_def)
  then show ?thesis
    by (simp add: create_color_matched_template_def plan_bands_odd text_layout_empty
        band_heights_tile canvas_width_def strict_rgb_def Let_def)
qed

theorem grid_band_sources_witness:
  "is_grid (width odd_image) (height odd_image) = Inr True
   \<and> create_color_matched_template strict_rgb spiky_width (Inr odd_image) [] True None =
     Inr (\<lparr>canvas_size = (735, 1102),
           top_band = \<lparr>band_source = (0, 0, 400, 399), scaled_size = (735, 733),
                       band_fit = CropToFill 166, final_size = (735, 400), pasted_at = (0, 0)\<rparr>,
           bottom_band = \<lparr>band_source = (400, 399, 801, 799), scaled_size = (735, 733),
                          band_fit = CropToFill 75, final_size = (735, 582), pasted_at = (0, 520)\<rparr>,
           banner_box = (0, 400, 735, 520),
           banner_fill = ''#FF2C2C'', banner_rgb = (255, 44, 44), text_lines = []\<rparr>, ''#FF2C2C'')
   \<and> width odd_image = 801 \<and> height odd_image = 799
   \<and> width odd_image div 2 = 400 \<and> height odd_image div 2 = 399"
proof -
  have g: "is_grid (width odd_image) (height odd_image) = Inr True"
    by (simp add: odd_image_def is_grid_odd)
  have d: "width odd_image = 801 \<and> height odd_image = 799" by (simp add: odd_image_def)
  from grid_band_sources [OF g create_odd_auto [of spiky_width]]
  have "width odd_image div 2 = 400 \<and> height odd_image div 2 = 399" by simp
  with g d create_odd_auto [of spiky_width] show ?thesis by blast
qed

subsection \<open>A render of the square image\<close>

lemma process_band_square_top:
  "process_band (0, 0, 400, 400) 400 (0, 0) =
     Inr \<lparr>band_source = (0, 0, 400, 400), scaled_size = (735, 735), band_fit = CropToFill 167,
          final_size = (735, 400), pasted_at = (0, 0)\<rparr>"
  by (simp add: process_band_def true_div_def float_div_def py_int_def canvas_width_def Let_def)

lemma process_band_square_bottom:
  "process_band (400, 400, 800, 800) 582 (0, 520) =
     Inr \<lparr>band_source = (400, 400, 800, 800), scaled_size = (735, 735), band_fit = CropToFill 76,
          final_size = (735, 582), pasted_at = (0, 520)\<rparr>"
  by (simp add: process_band_def true_div_def float_div_def py_int_def canvas_width_def Let_def)

lemma plan_bands_square:
  "plan_bands square_image =
     Inr (\<lparr>band_source = (0, 0, 400, 400), scaled_size = (735, 735), band_fit = CropToFill 167,
           final_size = (735, 400), pasted_at = (0, 0)\<rparr>,
          \<lparr>band_source = (400, 400, 800, 800), scaled_size = (735, 735), band_fit = CropToFill 76,
           final_size = (735, 582), pasted_at = (0, 520)\<rparr>)"
proof -
  have "band_sources 800 800 = Inr ((0, 0, 400, 400), (400, 400, 800, 800))"
    by (simp add: band_sources_def is_grid_def true_div_def)
  then show ?thesis
    by (simp add: plan_bands_def square_image_def band_heights_tile Let_def
        process_band_square_top process_band_square_bottom)
qed

lemma create_square_manual:
  "getrgb ''white'' = Inr w \<Longrightarrow> getrgb s = Inr rgb \<Longrightarrow>
   resolve_color False m square_image = Inr s \<Longrightarrow>
   create_color_matched_template getrgb tw (Inr square_image) [] False m =
     Inr (\<lparr>canvas_size = (735, 1102),
           top_band = \<lparr>band_source = (0, 0, 400, 400), scaled_size = (735, 735),
                       band_fit = CropToFill 167, final_size = (735, 400), pasted_at = (0, 0)\<rparr>,
           bottom_band = \<lparr>band_source = (400, 400, 800, 800), scaled_size = (735, 735),
                          band_fit = CropToFill 76, final_size = (735, 582), pasted_at = (0, 520)\<rparr>,
           banner_box = (0, 400, 735, 520),
           banner_fill = s, banner_rgb = rgb, text_lines = []\<rparr>, s)"
  by (simp add: create_color_matched_template_def plan_bands_square text_layout_empty
      band_heights_tile canvas_width_def Let_def)

subsection \<open>The three bands\<close>

text \<open>
  Claim C7, evaluated on the code. For every finished render the three heights are
  400, 120 and 582 and add up to the canvas height 1102, the top band is pasted at
  \<open>y = 0\<close> and the bottom band at \<open>y = 520\<close>, and each pasted band image has exactly its
  band's height. The banner, however, is drawn by
  \<^verbatim>\<open>draw.rectangle([0, banner_y, canvas_width, banner_y + banner_height])\<close> (lines 233-234),
  and Pillow's rectangle includes its second corner: the banner covers the rows 400 to
  520 inclusive, not the half-open range from 400 to 520, and the row 520 belongs to
  the banner and to the bottom band.
\<close>

theorem banner_overlaps_bottom_band:
  assumes "create_color_matched_template getrgb tw opened title use_auto manual = Inr (cv, col)"
  shows "top_image_height + banner_height + bottom_image_height = canvas_height
         \<and> canvas_height = 1102 \<and> top_image_height = 400 \<and> banner_height = 120
         \<and> bottom_image_height = 582
         \<and> pasted_at (top_band cv) = (0, 0) \<and> final_size (top_band cv) = (735, 400)
         \<and> pasted_at (bottom_band cv) = (0, 520) \<and> final_size (bottom_band cv) = (735, 582)
         \<and> banner_box cv = (0, 400, 735, 520)
         \<and> paste_rows (top_band cv) = {0 ..< 400}
         \<and> rectangle_rows (banner_box cv) = {400 .. 520}
         \<and> paste_rows (bottom_band cv) = {520 ..< 1102}
         \<and> rectangle_rows (banner_box cv) \<inter> paste_rows (bottom_band cv) = {520}"
proof -
  from create_props [OF assms] obtain img where
    pl: "plan_bands img = Inr (top_band cv, bottom_band cv)"
    and bx: "banner_box cv = (0, top_image_height, canvas_width, top_image_height + banner_height)"
    by blast
  from plan_bands_props [OF pl] have
    p: "pasted_at (top_band cv) = (0, 0)" "final_size (top_band cv) = (735, 400)"
       "pasted_at (bottom_band cv) = (0, 520)" "final_size (bottom_band cv) = (735, 582)"
    by (simp_all add: band_heights_tile canvas_width_def)
  then have t: "paste_rows (top_band cv) = {0 ..< 400}"
    and b: "paste_rows (bottom_band cv) = {520 ..< 1102}"
    by (simp_all add: paste_rows_def)
  from bx have bx': "banner_box cv = (0, 400, 735, 520)"
    by (simp add: band_heights_tile canvas_width_def)
  then have r: "rectangle_rows (banner_box cv) = {400 .. 520}"
    by (simp add: rectangle_rows_def)
  have i: "{400 .. 520} \<inter> {520 ..< 1102} = {520::int}" by auto
  from p t b bx' r i band_heights_tile show ?thesis by simp
qed

theorem banner_overlaps_bottom_band_witness:
  "create_color_matched_template strict_rgb spiky_width (Inr square_image) [] False (Some ''#112233'') =
     Inr (\<lparr>canvas_size = (735, 1102),
           top_band = \<lparr>band_source = (0, 0, 400, 400), scaled_size = (735, 735),
                       band_fit = CropToFill 167, final_size = (735, 400), pasted_at = (0, 0)\<rparr>,
           bottom_band = \<lparr>band_source = (400, 400, 800, 800), scaled_size = (735, 735),
                          band_fit = CropToFill 76, final_size = (735, 582), pasted_at = (0, 520)\<rparr>,
           banner_box = (0, 400, 735, 520),
           banner_fill = ''#112233'', banner_rgb = (17, 34, 51), text_lines = []\<rparr>, ''#112233'')
   \<and> rectangle_rows (0, 400, 735, 520)
       \<inter> paste_rows \<lparr>band_source = (400, 400, 800, 800), scaled_size = (735, 735),
                      band_fit = CropToFill 76, final_size = (735, 582), pasted_at = (0, 520)\<rparr>
       = {520}"
proof -
  have r: "resolve_color False (Some ''#112233'') square_image = Inr ''#112233''"
    by (simp add: resolve_color_def)
  let ?cv = "\<lparr>canvas_size = (735, 1102),
           top_band = \<lparr>band_source = (0, 0, 400, 400), scaled_size = (735, 735),
                       band_fit = CropToFill 167, final_size = (735, 400), pasted_at = (0, 0)\<rparr>,
           bottom_band = \<lparr>band_source = (400, 400, 800, 800), scaled_size = (735, 735),
                          band_fit = CropToFill 76, final_size = (735, 582), pasted_at = (0, 520)\<rparr>,
           banner_box = (0, 400, 735, 520),
           banner_fill = ''#112233'', banner_rgb = (17, 34, 51), text_lines = []\<rparr>"
  have c: "create_color_matched_template strict_rgb spiky_width (Inr square_image) [] False (Some ''#112233'') =
     Inr (?cv, ''#112233'')"
    by (rule create_square_manual [OF _ _ r]) (simp_all add: strict_rgb_def)
  from banner_overlaps_bottom_band [OF c]
  have "rectangle_rows (banner_box ?cv) \<inter> paste_rows (bottom_band ?cv) = {520}" by blast
  then have "rectangle_rows (0, 400, 735, 520)
       \<inter> paste_rows \<lparr>band_source = (400, 400, 800, 800), scaled_size = (735, 735),
                      band_fit = CropToFill 76, final_size = (735, 582), pasted_at = (0, 520)\<rparr>
       = {520}" by simp
  with c show ?thesis by blast
qed

subsection \<open>The manual colour\<close>

text \<open>
  Claim C4, amended. Let \<^verbatim>\<open>use_auto_color\<close> be false and the manual colour a string that
  is not empty. Then the manual colour is never replaced by the default colour: every
  finished render returns it as the resolved colour and has it as the fill of the
  banner. If the colour parser of the imaging library rejects the string, no render
  finishes; and when the image opens and the two bands can be laid out, the call ends
  with the error that the parser raised for the string. Which strings are rejected is
  decided by that parser, not by the form \<open>#RRGGBB\<close>; and the empty string is replaced
  by the default colour (shown after the witness).
\<close>

theorem manual_color_kept:
  assumes "s \<noteq> []"
  shows "(\<forall>e. getrgb s = Inl e \<longrightarrow>
            (\<exists>e'. create_color_matched_template getrgb tw opened title False (Some s) = Inl e'))
       \<and> (\<forall>e img w bands. getrgb s = Inl e \<and> opened = Inr img \<and> getrgb ''white'' = Inr w
              \<and> plan_bands img = Inr bands \<longrightarrow>
            create_color_matched_template getrgb tw opened title False (Some s) = Inl e)
       \<and> (\<forall>cv col. create_color_matched_template getrgb tw opened title False (Some s) = Inr (cv, col)
            \<longrightarrow> col = s \<and> banner_fill cv = s)"
proof (intro conjI allI impI)
  fix e assume e: "getrgb s = Inl e"
  show "\<exists>e'. create_color_matched_template getrgb tw opened title False (Some s) = Inl e'"
  proof (cases "create_color_matched_template getrgb tw opened title False (Some s)")
    case (Inl a)
    then show ?thesis by blast
  next
    case (Inr b)
    obtain cv col where "b = (cv, col)" by (cases b)
    with Inr create_props [of getrgb tw opened title False "Some s" cv col]
    obtain img rgb where "resolve_color False (Some s) img = Inr col" "getrgb col = Inr rgb"
      by blast
    with assms e show ?thesis by (simp add: resolve_color_def)
  qed
next
  fix e img w bands
  assume "getrgb s = Inl e \<and> opened = Inr img \<and> getrgb ''white'' = Inr w \<and> plan_bands img = Inr bands"
  with assms show "create_color_matched_template getrgb tw opened title False (Some s) = Inl e"
    by (cases bands) (simp add: create_color_matched_template_def resolve_color_def Let_def)
next
  fix cv col
  assume c: "create_color_matched_template getrgb tw opened title False (Some s) = Inr (cv, col)"
  from create_props [OF c] obtain img where "resolve_color False (Some s) img = Inr col"
    "banner_fill cv = col" by blast
  with assms show "col = s" "banner_fill cv = s" by (simp_all add: resolve_color_def)
qed

theorem manual_color_kept_witness:
  "strict_rgb ''notacolor'' = Inl (ValueError ''unknown color specifier: notacolor'')
   \<and> create_color_matched_template strict_rgb spiky_width (Inr square_image) ''Easy'' False
       (Some ''notacolor'') = Inl (ValueError ''unknown color specifier: notacolor'')
   \<and> create_color_matched_template strict_rgb spiky_width (Inr square_image) [] False (Some ''#112233'') =
     Inr (\<lparr>canvas_size = (735, 1102),
           top_band = \<lparr>band_source = (0, 0, 400, 400), scaled_size = (735, 735),
                       band_fit = CropToFill 167, final_size = (735, 400), pasted_at = (0, 0)\<rparr>,
           bottom_band = \<lparr>band_source = (400, 400, 800, 800), scaled_size = (735, 735),
                          band_fit = CropToFill 76, final_size = (735, 582), pasted_at = (0, 520)\<rparr>,
           banner_box = (0, 400, 735, 520),
           banner_fill = ''#112233'', banner_rgb = (17, 34, 51), text_lines = []\<rparr>, ''#112233'')"
proof -
  have ne: "''notacolor'' \<noteq> []" by simp
  have e: "strict_rgb ''notacolor'' = Inl (ValueError ''unknown color specifier: notacolor'')"
    by (simp add: strict_rgb_def)
  have w: "strict_rgb ''white'' = Inr (255, 255, 255)" by (simp add: strict_rgb_def)
  from manual_color_kept [OF ne, of strict_rgb spiky_width "Inr square_image" "''Easy''"] e w plan_bands_square
  have 1: "create_color_matched_template strict_rgb spiky_width (Inr square_image) ''Easy'' False
       (Some ''notacolor'') = Inl (ValueError ''unknown color specifier: notacolor'')"
    by blast
  have r: "resolve_color False (Some ''#112233'') square_image = Inr ''#112233''"
    by (simp add: resolve_color_def)
  have 2: "create_color_matched_template strict_rgb spiky_width (Inr square_image) [] False (Some ''#112233'') =
     Inr (\<lparr>canvas_size = (735, 1102),
           top_band = \<lparr>band_source = (0, 0, 400, 400), scaled_size = (735, 735),
                       band_fit = CropToFill 167, final_size = (735, 400), pasted_at = (0, 0)\<rparr>,
           bottom_band = \<lparr>band_source = (400, 400, 800, 800), scaled_size = (735, 735),
                          band_fit = CropToFill 76, final_size = (735, 582), pasted_at = (0, 520)\<rparr>,
           banner_box = (0, 400, 735, 520),
           banner_fill = ''#112233'', banner_rgb = (17, 34, 51), text_lines = []\<rparr>, ''#112233'')"
    by (rule create_square_manual [OF _ _ r]) (simp_all add: strict_rgb_def)
  from e 1 2 show ?thesis by blast
qed

text \<open>
  Claim C4 as written fails for the empty string, which is not of the form \<open>#RRGGBB\<close>:
  \<^verbatim>\<open>manual_color or self.default_color\<close> (line 157) takes it for false. The render of the
  square image with an empty title finishes, with the default colour \<open>#FF9800\<close> as the
  fill of the banner and as the colour returned.
\<close>

theorem empty_manual_color_replaced:
  "create_color_matched_template strict_rgb spiky_width (Inr square_image) [] False (Some []) =
     Inr (\<lparr>canvas_size = (735, 1102),
           top_band = \<lparr>band_source = (0, 0, 400, 400), scaled_size = (735, 735),
                       band_fit = CropToFill 167, final_size = (735, 400), pasted_at = (0, 0)\<rparr>,
           bottom_band = \<lparr>band_source = (400, 400, 800, 800), scaled_size = (735, 735),
                          band_fit = CropToFill 76, final_size = (735, 582), pasted_at = (0, 520)\<rparr>,
           banner_box = (0, 400, 735, 520),
           banner_fill = ''#FF9800'', banner_rgb = (255, 152, 0), text_lines = []\<rparr>, ''#FF9800'')"
proof -
  have r: "resolve_color False (Some []) square_image = Inr ''#FF9800''"
    by (simp add: resolve_color_def default_color_def)
  show ?thesis
    by (rule create_square_manual [OF _ _ r]) (simp_all add: strict_rgb_def)
qed



subsection \<open>Text layout\<close>

lemma join_words_snoc:
  "join_words (ws @ [w]) = (if ws = [] then w else join_words ws @ '' '' @ w)"
proof (induction ws rule: join_words.induct)
  case 1
  show ?case by simp
next
  case (2 v)
  show ?case by simp
next
  case (3 a b ws)
  then show ?case by simp
qed

lemma join_words_empty_iff: "\<forall>w \<in> set ws. w \<noteq> [] \<Longrightarrow> join_words ws = [] \<longleftrightarrow> ws = []"
proof (induction ws rule: join_words.induct)
  case 1
  show ?case by simp
next
  case (2 v)
  then show ?case by simp
next
  case (3 a b ws)
  then show ?case by simp
qed

lemma wrap_step_groups:
  assumes "\<forall>w \<in> set cur. w \<noteq> []"
  shows "wrap_step tw m (map join_words gs, join_words cur) w =
           (case group_step tw m (gs, cur) w of (gs', cur') \<Rightarrow> (map join_words gs', join_words cur'))"
proof (cases "cur = []")
  case True
  then show ?thesis by (simp add: wrap_step_def group_step_def)
next
  case False
  with assms have ne: "join_words cur \<noteq> []" by (simp add: join_words_empty_iff)
  from False have j: "join_words (cur @ [w]) = join_words cur @ '' '' @ w"
    by (simp add: join_words_snoc)
  show ?thesis
    unfolding wrap_step_def group_step_def j using ne False by (simp add: Let_def j)
qed

lemma group_step_nonempty:
  assumes "\<forall>w \<in> set cur. w \<noteq> []" and "w \<noteq> []" and "group_step tw m (gs, cur) w = (gs', cur')"
  shows "\<forall>w \<in> set cur'. w \<noteq> []"
  using assms by (auto simp: group_step_def split: if_splits)

lemma foldl_wrap_groups:
  assumes "\<forall>w \<in> set ws. w \<noteq> []" and "\<forall>w \<in> set cur. w \<noteq> []"
  shows "foldl (wrap_step tw m) (map join_words gs, join_words cur) ws =
           (case foldl (group_step tw m) (gs, cur) ws of
              (gs', cur') \<Rightarrow> (map join_words gs', join_words cur'))
         \<and> (\<forall>w \<in> set (snd (foldl (group_step tw m) (gs, cur) ws)). w \<noteq> [])"
  using assms
proof (induction ws arbitrary: gs cur)
  case Nil
  then show ?case by simp
next
  case (Cons a ws)
  obtain gs' cur' where g: "group_step tw m (gs, cur) a = (gs', cur')" by (cases "group_step tw m (gs, cur) a")
  from Cons.prems have ne: "\<forall>w \<in> set cur'. w \<noteq> []"
    using group_step_nonempty [OF _ _ g] by simp
  from Cons.prems have st: "wrap_step tw m (map join_words gs, join_words cur) a
      = (map join_words gs', join_words cur')"
    by (simp add: wrap_step_groups g)
  from Cons.prems have "\<forall>w \<in> set ws. w \<noteq> []" by simp
  from Cons.IH [OF this ne, of gs'] show ?case by (simp add: st g)
qed

lemma wrap_lines_groups:
  assumes "\<forall>w \<in> set ws. w \<noteq> []"
  shows "wrap_lines tw m ws = map join_words (wrap_groups tw m ws)"
proof -
  obtain gs cur where f: "foldl (group_step tw m) ([], []) ws = (gs, cur)"
    by (cases "foldl (group_step tw m) ([], []) ws")
  from foldl_wrap_groups [OF assms, of "[]" tw m "[]"] f
  have w: "foldl (wrap_step tw m) ([], []) ws = (map join_words gs, join_words cur)"
    and ne: "\<forall>w \<in> set cur. w \<noteq> []" by simp_all
  from ne have "join_words cur = [] \<longleftrightarrow> cur = []" by (rule join_words_empty_iff)
  then show ?thesis by (simp add: wrap_lines_def wrap_groups_def w f)
qed

lemma foldl_group_inv:
  assumes "\<forall>g \<in> set gs. g \<noteq> [] \<and> line_ok tw m g" and "line_ok tw m cur"
    and "foldl (group_step tw m) (gs, cur) ws = (gs', cur')"
  shows "concat gs' @ cur' = concat gs @ cur @ ws
         \<and> (\<forall>g \<in> set gs'. g \<noteq> [] \<and> line_ok tw m g) \<and> line_ok tw m cur'"
  using assms
proof (induction ws arbitrary: gs cur)
  case Nil
  then show ?case by simp
next
  case (Cons a ws)
  show ?case
  proof (cases "tw (join_words (cur @ [a])) > m \<and> cur \<noteq> []")
    case True
    then have st: "group_step tw m (gs, cur) a = (gs @ [cur], [a])" by (simp add: group_step_def)
    have 1: "\<forall>g \<in> set (gs @ [cur]). g \<noteq> [] \<and> line_ok tw m g" using Cons.prems(1,2) True by simp
    have 2: "line_ok tw m [a]" by (simp add: line_ok_def)
    from Cons.prems(3) have 3: "foldl (group_step tw m) (gs @ [cur], [a]) ws = (gs', cur')"
      by (simp add: st)
    from Cons.IH [OF 1 2 3] show ?thesis by simp
  next
    case False
    then have st: "group_step tw m (gs, cur) a = (gs, cur @ [a])" by (auto simp: group_step_def)
    have 2: "line_ok tw m (cur @ [a])"
    proof (cases "cur = []")
      case True
      then show ?thesis by (simp add: line_ok_def)
    next
      case False
      with \<open>\<not> (tw (join_words (cur @ [a])) > m \<and> cur \<noteq> [])\<close> show ?thesis
        by (simp add: line_ok_def)
    qed
    from Cons.prems(3) have 3: "foldl (group_step tw m) (gs, cur @ [a]) ws = (gs', cur')"
      by (simp add: st)
    from Cons.IH [OF Cons.prems(1) 2 3] show ?thesis by simp
  qed
qed

lemma wrap_groups_props:
  "concat (wrap_groups tw m ws) = ws
   \<and> (\<forall>g \<in> set (wrap_groups tw m ws). g \<noteq> [] \<and> line_ok tw m g)"
proof -
  obtain gs cur where f: "foldl (group_step tw m) ([], []) ws = (gs, cur)"
    by (cases "foldl (group_step tw m) ([], []) ws")
  have "\<forall>g \<in> set []. g \<noteq> [] \<and> line_ok tw m g" by simp
  moreover have "line_ok tw m []" by (simp add: line_ok_def)
  ultimately have "concat gs @ cur = concat [] @ [] @ ws
      \<and> (\<forall>g \<in> set gs. g \<noteq> [] \<and> line_ok tw m g) \<and> line_ok tw m cur"
    using f by (rule foldl_group_inv)
  then show ?thesis by (auto simp: wrap_groups_def f)
qed

lemma split_acc_nonempty: "\<forall>w \<in> set (split_acc acc s). w \<noteq> []"
proof (induction s arbitrary: acc)
  case Nil
  then show ?case by simp
next
  case (Cons c cs)
  from Cons.IH [of "[]"] Cons.IH [of "acc @ [c]"] show ?case by simp
qed

lemma split_ws_nonempty: "\<forall>w \<in> set (split_ws s). w \<noteq> []"
  by (simp add: split_ws_def split_acc_nonempty)

lemma overlong_alone:
  assumes "concat gs = ws" and "\<forall>g \<in> set gs. g \<noteq> [] \<and> line_ok tw m g"
    and "\<forall>g. 2 \<le> length g \<and> (\<exists>w \<in> set g. tw w > m) \<longrightarrow> tw (join_words g) > m"
    and "w \<in> set ws" and "tw w > m"
  shows "[w] \<in> set gs"
proof -
  from assms(1,4) obtain g where g: "g \<in> set gs" "w \<in> set g" by auto
  have "\<not> 2 \<le> length g"
  proof
    assume l: "2 \<le> length g"
    with assms(2) g(1) have "tw (join_words g) \<le> m" by (simp add: line_ok_def)
    moreover from assms(3) l g(2) assms(5) have "tw (join_words g) > m" by blast
    ultimately show False by simp
  qed
  with g(2) have "g = [w]" by (cases g) (auto simp: Suc_le_eq)
  with g(1) show ?thesis by simp
qed

lemma forced_snoc:
  "forced tw m (xs @ [g, g']) = (forced tw m (xs @ [g]) \<and> tw (join_words (g @ [hd g'])) > m)"
proof (induction xs)
  case Nil
  show ?case by simp
next
  case (Cons x xs)
  then show ?case by (cases xs) auto
qed

lemma forced_nth:
  "forced tw m gs \<Longrightarrow> Suc i < length gs \<Longrightarrow> tw (join_words (gs ! i @ [hd (gs ! Suc i)])) > m"
proof (induction tw m gs arbitrary: i rule: forced.induct)
  case (1 tw m g g' gs)
  then show ?case by (cases i) simp_all
next
  case (2 tw m g)
  then show ?case by simp
next
  case (3 tw m)
  then show ?case by simp
qed

lemma foldl_group_forced:
  assumes "forced tw m (gs @ [cur])" and "gs \<noteq> [] \<longrightarrow> cur \<noteq> []"
    and "foldl (group_step tw m) (gs, cur) ws = (gs', cur')"
  shows "forced tw m (gs' @ [cur']) \<and> (gs' \<noteq> [] \<longrightarrow> cur' \<noteq> [])"
  using assms
proof (induction ws arbitrary: gs cur)
  case Nil
  then show ?case by simp
next
  case (Cons a ws)
  show ?case
  proof (cases "tw (join_words (cur @ [a])) > m \<and> cur \<noteq> []")
    case True
    then have st: "group_step tw m (gs, cur) a = (gs @ [cur], [a])" by (simp add: group_step_def)
    have 1: "forced tw m ((gs @ [cur]) @ [[a]])"
      using forced_snoc [of tw m gs cur "[a]"] Cons.prems(1) True by simp
    have 2: "gs @ [cur] \<noteq> [] \<longrightarrow> [a] \<noteq> []" by simp
    from Cons.prems(3) have 3: "foldl (group_step tw m) (gs @ [cur], [a]) ws = (gs', cur')"
      by (simp add: st)
    from Cons.IH [OF 1 2 3] show ?thesis .
  next
    case False
    then have st: "group_step tw m (gs, cur) a = (gs, cur @ [a])" by (auto simp: group_step_def)
    have 1: "forced tw m (gs @ [cur @ [a]])"
    proof (cases gs rule: rev_cases)
      case Nil
      then show ?thesis by simp
    next
      case (snoc ys g)
      with Cons.prems(2) have ne: "cur \<noteq> []" by simp
      from Cons.prems(1) have "forced tw m (ys @ [g, cur])" by (simp add: snoc)
      then have "forced tw m (ys @ [g]) \<and> tw (join_words (g @ [hd cur])) > m"
        by (simp add: forced_snoc)
      moreover from ne have "hd (cur @ [a]) = hd cur" by simp
      ultimately have "forced tw m (ys @ [g, cur @ [a]])"
        using forced_snoc [of tw m ys g "cur @ [a]"] by simp
      then show ?thesis by (simp add: snoc)
    qed
    have 2: "gs \<noteq> [] \<longrightarrow> cur @ [a] \<noteq> []" by simp
    from Cons.prems(3) have 3: "foldl (group_step tw m) (gs, cur @ [a]) ws = (gs', cur')"
      by (simp add: st)
    from Cons.IH [OF 1 2 3] show ?thesis .
  qed
qed

lemma wrap_groups_forced: "forced tw m (wrap_groups tw m ws)"
proof -
  obtain gs cur where f: "foldl (group_step tw m) ([], []) ws = (gs, cur)"
    by (cases "foldl (group_step tw m) ([], []) ws")
  have "forced tw m ([] @ [[]])" by simp
  moreover have "([] :: string list list) \<noteq> [] \<longrightarrow> ([] :: string list) \<noteq> []" by simp
  ultimately have r: "forced tw m (gs @ [cur]) \<and> (gs \<noteq> [] \<longrightarrow> cur \<noteq> [])"
    using f by (rule foldl_group_forced)
  show ?thesis
  proof (cases "cur = []")
    case True
    with r have "gs = []" by blast
    with True show ?thesis by (simp add: wrap_groups_def f)
  next
    case False
    with r show ?thesis by (simp add: wrap_groups_def f)
  qed
qed

lemma length_le_join: "w \<in> set g \<Longrightarrow> length w \<le> length (join_words g)"
proof (induction g rule: join_words.induct)
  case 1
  then show ?case by simp
next
  case (2 v)
  then show ?case by simp
next
  case (3 a b ws)
  then show ?case by auto
qed

text \<open>
  Claim C8, amended. For every title and every width function, the lines of the layout
  are the words of the upper-cased title, in their order, grouped without a gap and
  without an empty group and joined with single blanks: no word is dropped, split or
  hyphenated. Every line of two or more words has a width of at most 655, that is
  \<open>canvas_width - 80\<close>. The wrapping is greedy: a line is closed only when the next word,
  appended to it, would exceed 655. A word whose width alone exceeds 655 is a line of
  its own, provided the width function makes every line of two or more words that
  contains such a word exceed 655 as well. Without that condition on the width function
  the last statement fails (shown after the witness).
\<close>

theorem text_layout_wraps:
  "\<exists>groups. text_layout tw title = map join_words groups
      \<and> concat groups = split_ws (str_upper title)
      \<and> (\<forall>g \<in> set groups. g \<noteq> [] \<and> (2 \<le> length g \<longrightarrow> tw (join_words g) \<le> 655))
      \<and> (\<forall>i. Suc i < length groups \<longrightarrow>
             tw (join_words (groups ! i @ [hd (groups ! Suc i)])) > 655)
      \<and> ((\<forall>g. 2 \<le> length g \<and> (\<exists>w \<in> set g. tw w > 655) \<longrightarrow> tw (join_words g) > 655)
           \<longrightarrow> (\<forall>w \<in> set (split_ws (str_upper title)). tw w > 655 \<longrightarrow> [w] \<in> set groups))"
proof -
  let ?ws = "split_ws (str_upper title)"
  let ?gs = "wrap_groups tw 655 ?ws"
  have m: "canvas_width - 80 = 655" by (simp add: canvas_width_def)
  have 1: "text_layout tw title = map join_words ?gs"
    by (simp add: text_layout_def m wrap_lines_groups split_ws_nonempty)
  have 2: "concat ?gs = ?ws" and 3: "\<forall>g \<in> set ?gs. g \<noteq> [] \<and> line_ok tw 655 g"
    using wrap_groups_props [of tw 655 ?ws] by simp_all
  have 4: "[w] \<in> set ?gs"
    if "\<forall>g. 2 \<le> length g \<and> (\<exists>w \<in> set g. tw w > 655) \<longrightarrow> tw (join_words g) > 655"
      and "w \<in> set ?ws" and "tw w > 655" for w
    using 2 3 that by (rule overlong_alone)
  from 3 have g3: "\<forall>g \<in> set ?gs. g \<noteq> [] \<and> (2 \<le> length g \<longrightarrow> tw (join_words g) \<le> 655)"
    by (simp add: line_ok_def)
  have 5: "\<forall>i. Suc i < length ?gs \<longrightarrow> tw (join_words (?gs ! i @ [hd (?gs ! Suc i)])) > 655"
    using forced_nth [OF wrap_groups_forced [of tw 655 ?ws]] by blast
  from 1 2 g3 5 4 show ?thesis by blast
qed

lemma upper_example: "str_upper ''a wwwwwwwwwwwwwwwwwwwwww bc'' = ''A WWWWWWWWWWWWWWWWWWWWWW BC''"
  by (simp add: str_upper_def upper_char_def)

lemma split_example:
  "split_ws ''A WWWWWWWWWWWWWWWWWWWWWW BC'' = [''A'', ''WWWWWWWWWWWWWWWWWWWWWW'', ''BC'']"
  by (simp add: split_ws_def is_space_def)

lemma layout_example:
  "text_layout mono_width ''a wwwwwwwwwwwwwwwwwwwwww bc'' = [''A'', ''WWWWWWWWWWWWWWWWWWWWWW'', ''BC'']"
  by (simp add: text_layout_def upper_example split_example wrap_lines_def wrap_step_def
      mono_width_def canvas_width_def Let_def)

theorem text_layout_wraps_witness:
  "mono_width ''WWWWWWWWWWWWWWWWWWWWWW'' = 660
   \<and> split_ws (str_upper ''a wwwwwwwwwwwwwwwwwwwwww bc'') = [''A'', ''WWWWWWWWWWWWWWWWWWWWWW'', ''BC'']
   \<and> text_layout mono_width ''a wwwwwwwwwwwwwwwwwwwwww bc'' = [''A'', ''WWWWWWWWWWWWWWWWWWWWWW'', ''BC'']
   \<and> ''WWWWWWWWWWWWWWWWWWWWWW'' \<in> set (text_layout mono_width ''a wwwwwwwwwwwwwwwwwwwwww bc'')"
proof -
  let ?t = "''a wwwwwwwwwwwwwwwwwwwwww bc''"
  let ?w = "''WWWWWWWWWWWWWWWWWWWWWW''"
  have mw: "mono_width ?w = 660" by (simp add: mono_width_def)
  have sp: "split_ws (str_upper ?t) = [''A'', ?w, ''BC'']" by (simp add: upper_example split_example)
  have mono: "\<forall>g. 2 \<le> length g \<and> (\<exists>w \<in> set g. mono_width w > 655) \<longrightarrow> mono_width (join_words g) > 655"
  proof (intro allI impI)
    fix g assume "2 \<le> length g \<and> (\<exists>w \<in> set g. mono_width w > 655)"
    then obtain w where w: "w \<in> set g" "mono_width w > 655" by blast
    from w(1) have "length w \<le> length (join_words g)" by (rule length_le_join)
    with w(2) show "mono_width (join_words g) > 655" by (simp add: mono_width_def)
  qed
  from text_layout_wraps [of mono_width ?t] obtain groups where
    l: "text_layout mono_width ?t = map join_words groups"
    and a: "(\<forall>g. 2 \<le> length g \<and> (\<exists>w \<in> set g. mono_width w > 655) \<longrightarrow> mono_width (join_words g) > 655)
           \<longrightarrow> (\<forall>w \<in> set (split_ws (str_upper ?t)). mono_width w > 655 \<longrightarrow> [w] \<in> set groups)"
    by blast
  from a mono have "\<forall>w \<in> set (split_ws (str_upper ?t)). mono_width w > 655 \<longrightarrow> [w] \<in> set groups"
    by blast
  with sp mw have "[?w] \<in> set groups" by simp
  then have "join_words [?w] \<in> join_words ` set groups" by (rule imageI)
  then have "join_words [?w] \<in> set (map join_words groups)" by (simp only: set_map)
  with l have mem: "?w \<in> set (text_layout mono_width ?t)" by simp
  from mw sp layout_example mem show ?thesis by blast
qed

text \<open>
  Claim C8 as written, for every width function, fails. Under the width function that
  gives the word \<open>AAA\<close> the width 1000 and every other string the width 0, the title
  \<open>b aaa\<close> is laid out as the single line \<open>B AAA\<close>: the test of line 267 measures the
  line, not the word, so the word \<open>AAA\<close>, wider than 655 alone, is not a line of its own.
\<close>

theorem overlong_word_not_alone:
  "spiky_width ''AAA'' = 1000
   \<and> split_ws (str_upper ''b aaa'') = [''B'', ''AAA'']
   \<and> text_layout spiky_width ''b aaa'' = [''B AAA'']"
proof -
  have u: "str_upper ''b aaa'' = ''B AAA''" by (simp add: str_upper_def upper_char_def)
  have sp: "split_ws ''B AAA'' = [''B'', ''AAA'']" by (simp add: split_ws_def is_space_def)
  have "text_layout spiky_width ''b aaa'' = [''B AAA'']"
    by (simp add: text_layout_def u sp wrap_lines_def wrap_step_def spiky_width_def
        canvas_width_def Let_def)
  with u sp show ?thesis by (simp add: spiky_width_def)
qed

end
